theory Spec2Isabelle
  imports Main "HOL-Library.Word"
begin

section \<open>The simple blocks of leansdr/generic.h\<close>

text \<open>
  Each block of \<^verbatim>\<open>generic.h\<close> is a struct with a \<^verbatim>\<open>run()\<close> method that the scheduler
  calls repeatedly. A struct is a record here, \<^verbatim>\<open>run()\<close> a function from the state
  before the call to the outcome of the call. A call that ends in \<^verbatim>\<open>fatal(msg)\<close> is
  the value \<open>Inl (Fatal msg s)\<close>, where \<open>s\<close> is the state of the block at the call of
  \<^verbatim>\<open>fatal\<close>; a call that returns is \<open>Inr\<close> of the state after it.
  Element counts and byte counts are natural numbers and integers, and a count that the
  source stores in an \<^verbatim>\<open>int\<close> is converted as the source converts it (\<open>to_int\<close>,
  \<open>to_ulong\<close>). \<^verbatim>\<open>sizeof(T)\<close> is the parameter \<open>sz\<close>. The operating system (\<^verbatim>\<open>read\<close>,
  \<^verbatim>\<open>write\<close>, \<^verbatim>\<open>lseek\<close>) and the C library (\<^verbatim>\<open>snprintf\<close>, \<^verbatim>\<open>fprintf\<close>, \<^verbatim>\<open>fflush\<close>) are
  parameters of the blocks that call them. The scheduler's debug output to \<^verbatim>\<open>stderr\<close> is
  left out.
\<close>

subsection \<open>Integer conversions\<close>

text \<open>
  The integer types are those of the LP64 data model: \<^verbatim>\<open>int\<close> has 32 bits,
  \<^verbatim>\<open>unsigned long\<close> and \<^verbatim>\<open>size_t\<close> have 64 bits. \<open>to_int\<close> is the conversion of an
  integer value to \<^verbatim>\<open>int\<close>, which keeps the low 32 bits in two's complement, and
  \<open>to_ulong\<close> the conversion to \<^verbatim>\<open>unsigned long\<close> or \<^verbatim>\<open>size_t\<close>, which reduces modulo
  \<open>2 ^ 64\<close>.
\<close>

definition to_int :: "int \<Rightarrow> int" where
  "to_int x = (x + 2 ^ 31) mod 2 ^ 32 - 2 ^ 31"

definition to_ulong :: "int \<Rightarrow> int" where
  "to_ulong x = x mod 2 ^ 64"

subsection \<open>Outcomes\<close>

text \<open>
  Modelled from the spec: \<^verbatim>\<open>fatal(msg)\<close> (declared in leansdr/framework.h, which is not
  among the sources) terminates the whole run and reports the error; nothing after it
  is executed. \<open>Fatal msg s\<close> keeps the state \<open>s\<close> of the block at that point. The other
  three failures are not calls of \<^verbatim>\<open>fatal\<close>: they are the points where the source leaves
  the contract of a handle or the defined behaviour of C++.
\<close>

datatype 's failure =
    Fatal string 's   \<comment> \<open>\<^verbatim>\<open>fatal(msg)\<close>: the whole run is aborted, in the state given\<close>
  | Overrun           \<comment> \<open>a handle advanced by more than it reported\<close>
  | Out_of_bounds     \<comment> \<open>an access outside the window a handle exposed\<close>
  | Div_by_zero       \<comment> \<open>an integer division by zero\<close>

type_synonym byte = "8 word"

subsection \<open>Buffer handles\<close>

text \<open>
  Modelled from the spec: the reader handle \<^verbatim>\<open>pipereader<T>\<close> (declared in
  leansdr/framework.h, which is not among the sources). It reports how many elements are
  readable, exposes a window over them, and advancing it by \<open>k\<close> discards the first
  \<open>k\<close> elements; \<open>k\<close> must not exceed the readable count.
\<close>

record 'a pipereader =
  items :: "'a list"

definition readable :: "'a pipereader \<Rightarrow> nat" where
  "readable r = length (items r)"

definition rd :: "'a pipereader \<Rightarrow> 'a list" where
  "rd r = items r"

definition read :: "nat \<Rightarrow> 'a pipereader \<Rightarrow> 's failure + 'a pipereader" where
  "read k r =
     (if k \<le> readable r then Inr (r\<lparr>items := drop k (items r)\<rparr>) else Inl Overrun)"

text \<open>
  Modelled from the spec: the writer handle \<^verbatim>\<open>pipewriter<T>\<close> (declared in
  leansdr/framework.h, which is not among the sources). It reports how many elements of
  free capacity exist, exposes a writable window over them, and advancing it by \<open>k\<close>
  commits the first \<open>k\<close> elements of the window; \<open>k\<close> must not exceed the writable
  count.
\<close>

record 'a pipewriter =
  committed :: "'a list"
  window :: "'a list"

definition writable :: "'a pipewriter \<Rightarrow> nat" where
  "writable w = length (window w)"

definition wr :: "'a pipewriter \<Rightarrow> 'a list" where
  "wr w = window w"

definition written :: "nat \<Rightarrow> 'a pipewriter \<Rightarrow> 's failure + 'a pipewriter" where
  "written k w =
     (if k \<le> writable w
      then Inr (w\<lparr>committed := committed w @ take k (window w), window := drop k (window w)\<rparr>)
      else Inl Overrun)"

subsection \<open>The operating system and the C library\<close>

text \<open>
  The descriptor is a state \<open>'fd\<close> of the operating system, and each system call is a
  function from that state to its return value and the state after the call.
  \<^item> \<^verbatim>\<open>read(fd, buf, count)\<close>: \<open>None\<close> is the error return \<open>-1\<close>, \<open>Some bs\<close> the bytes
    stored in \<^verbatim>\<open>buf\<close>, whose number is the return value.
  \<^item> \<^verbatim>\<open>lseek(fd, 0, SEEK_SET)\<close>: the return value, \<open>-1\<close> on failure.
  \<^item> \<^verbatim>\<open>write(fd, buf, count)\<close>: the call sees the contents of \<^verbatim>\<open>buf\<close> and the count, and
    gives the return value, of type \<^verbatim>\<open>ssize_t\<close>.
\<close>

type_synonym 'fd sys_read = "'fd \<Rightarrow> nat \<Rightarrow> byte list option \<times> 'fd"
type_synonym 'fd sys_lseek = "'fd \<Rightarrow> int \<times> 'fd"
type_synonym ('fd, 'b) sys_write = "'fd \<Rightarrow> 'b list \<Rightarrow> nat \<Rightarrow> int \<times> 'fd"

text \<open>
  \<^verbatim>\<open>snprintf(buf, size, format, v)\<close>, given the size and the text that the format renders
  for \<open>v\<close>: the return value and the characters stored in \<^verbatim>\<open>buf\<close> before the
  terminating NUL. ISO C99 (7.19.6.5) stores at most \<open>size - 1\<close> characters and returns
  the number of characters that a large enough buffer would have received.
\<close>

type_synonym snprintf_fn = "nat \<Rightarrow> string \<Rightarrow> int \<times> string"

definition snprintf_c99 :: snprintf_fn where
  "snprintf_c99 bsize text = (int (length text), take (bsize - 1) text)"

text \<open>
  A \<^verbatim>\<open>FILE\<close> stream is a state \<open>'f\<close> of the C library. \<^verbatim>\<open>fprintf(fout, ...)\<close>, given the
  text that the format renders, and \<^verbatim>\<open>fflush(fout)\<close> are functions from that state to the
  state after the call; either may fail and lose text. The blocks ignore their return
  values.
\<close>

type_synonym 'f lib_fprintf = "'f \<Rightarrow> string \<Rightarrow> 'f"
type_synonym 'f lib_fflush = "'f \<Rightarrow> 'f"

subsection \<open>file\_reader\<close>

text \<open>
  An element of type \<^verbatim>\<open>T\<close> in the reader's and the writer's buffers is its \<open>sz\<close> bytes.
  \<open>chunks\<close> cuts the bytes that \<^verbatim>\<open>read\<close> delivered into whole elements, and \<open>store\<close>
  puts values at the start of a window. \<^verbatim>\<open>size_t size\<close> and \<^verbatim>\<open>ssize_t nr\<close> have 64 bits and
  hold the byte counts of a buffer exactly.
\<close>

fun chunks :: "nat \<Rightarrow> 'a list \<Rightarrow> 'a list list" where
  "chunks sz bs =
     (if sz = 0 \<or> length bs < sz then [] else take sz bs # chunks sz (drop sz bs))"

declare chunks.simps [simp del]

definition store :: "'a list \<Rightarrow> 'a list \<Rightarrow> 'a list" where
  "store xs win = take (length win) (xs @ drop (length xs) win)"

text \<open>
  The window after \<^verbatim>\<open>read\<close> has stored the bytes \<open>bs\<close> in it, when their number need not
  be a multiple of \<open>sz\<close>: the whole elements, and then the element that received the
  remaining bytes, whose other bytes are as before.
\<close>

definition store_bytes :: "nat \<Rightarrow> 'b list \<Rightarrow> 'b list list \<Rightarrow> 'b list list" where
  "store_bytes sz bs win =
     (let q = length bs div sz in
      if q < length win
      then (store (chunks sz bs) win)
             [q := drop (q * sz) bs @ drop (length bs mod sz) (win ! q)]
      else store (chunks sz bs) win)"

record 'fd file_reader =
  fr_loop :: bool
  fr_fdin :: 'fd
  fr_out :: "byte list pipewriter"
  fr_pos :: int

definition file_reader_init :: "'fd \<Rightarrow> byte list pipewriter \<Rightarrow> 'fd file_reader" where
  "file_reader_init fd outp = \<lparr>fr_loop = False, fr_fdin = fd, fr_out = outp, fr_pos = 0\<rparr>"

text \<open>
  The body of \<^verbatim>\<open>run()\<close> from the label \<^verbatim>\<open>again\<close>; \<^verbatim>\<open>goto again\<close> is the recursive call.
  An invocation that never leaves the loop is \<open>None\<close>.
\<close>

partial_function (option) file_reader_again ::
  "nat \<Rightarrow> 'fd sys_read \<Rightarrow> 'fd sys_lseek \<Rightarrow> nat \<Rightarrow> 'fd file_reader
     \<Rightarrow> ('fd file_reader failure + 'fd file_reader) option" where
  "file_reader_again sz sys_read sys_lseek bsize s =
     (case sys_read (fr_fdin s) bsize of
        (None, fd1) \<Rightarrow> Some (Inl (Fatal ''read'' (s\<lparr>fr_fdin := fd1\<rparr>)))
      | (Some bs, fd1) \<Rightarrow>
          if length bs = 0 \<and> \<not> fr_loop s then Some (Inr (s\<lparr>fr_fdin := fd1\<rparr>))
          else if length bs = 0 then
            (case sys_lseek fd1 of (res, fd2) \<Rightarrow>
               if res = - 1 then Some (Inl (Fatal ''lseek'' (s\<lparr>fr_fdin := fd2\<rparr>)))
               else file_reader_again sz sys_read sys_lseek bsize (s\<lparr>fr_fdin := fd2\<rparr>))
          else if length bs mod sz \<noteq> 0 then
            Some (Inl (Fatal ''partial read''
              (s\<lparr>fr_fdin := fd1,
                 fr_out := (fr_out s)\<lparr>window := store_bytes sz bs (wr (fr_out s))\<rparr>\<rparr>)))
          else
            (case written (length bs div sz)
                    ((fr_out s)\<lparr>window := store (chunks sz bs) (wr (fr_out s))\<rparr>) of
               Inl e \<Rightarrow> Some (Inl e)
             | Inr w \<Rightarrow> Some (Inr (s\<lparr>fr_fdin := fd1, fr_out := w\<rparr>))))"

definition file_reader_run ::
  "nat \<Rightarrow> 'fd sys_read \<Rightarrow> 'fd sys_lseek \<Rightarrow> 'fd file_reader
     \<Rightarrow> ('fd file_reader failure + 'fd file_reader) option" where
  "file_reader_run sz sys_read sys_lseek s =
     (let bsize = writable (fr_out s) * sz in
      if bsize = 0 then Some (Inr s)
      else file_reader_again sz sys_read sys_lseek bsize s)"

subsection \<open>file\_writer\<close>

record 'fd file_writer =
  fw_in :: "byte list pipereader"
  fw_fdout :: 'fd

text \<open>
  \<^verbatim>\<open>int size = in.readable() * sizeof(T)\<close>: the product is an \<^verbatim>\<open>unsigned long\<close> and is
  converted to \<^verbatim>\<open>int\<close>. \<^verbatim>\<open>write\<close> takes \<^verbatim>\<open>size\<close> as a \<^verbatim>\<open>size_t\<close>, and its result is
  converted to \<^verbatim>\<open>int nw\<close>. In \<^verbatim>\<open>nw % sizeof(T)\<close> and \<^verbatim>\<open>nw/sizeof(T)\<close> the operand \<^verbatim>\<open>nw\<close> is
  converted to \<^verbatim>\<open>size_t\<close>.
\<close>

definition file_writer_run ::
  "nat \<Rightarrow> ('fd, byte) sys_write \<Rightarrow> 'fd file_writer
     \<Rightarrow> 'fd file_writer failure + 'fd file_writer" where
  "file_writer_run sz sys_write s =
     (let bsize = to_int (to_ulong (int (readable (fw_in s)) * int sz)) in
      if bsize = 0 then Inr s
      else
        (case sys_write (fw_fdout s) (concat (rd (fw_in s))) (nat (to_ulong bsize)) of
           (res, fd1) \<Rightarrow>
             let nw = to_int res in
             if nw = 0 then Inl (Fatal ''pipe'' (s\<lparr>fw_fdout := fd1\<rparr>))
             else if nw < 0 then Inl (Fatal ''write'' (s\<lparr>fw_fdout := fd1\<rparr>))
             else if to_ulong nw mod int sz \<noteq> 0
               then Inl (Fatal ''partial write'' (s\<lparr>fw_fdout := fd1\<rparr>))
             else
               (case read (nat (to_ulong nw div int sz)) (fw_in s) of
                  Inl e \<Rightarrow> Inl e
                | Inr r \<Rightarrow> Inr (s\<lparr>fw_in := r, fw_fdout := fd1\<rparr>))))"

subsection \<open>file\_printer\<close>

record ('a, 'fd) file_printer =
  fp_scale :: 'a
  fp_in :: "'a pipereader"
  fp_format :: "'a \<Rightarrow> string"
  fp_fdout :: 'fd

definition file_printer_init ::
  "('a \<Rightarrow> string) \<Rightarrow> 'a pipereader \<Rightarrow> 'fd \<Rightarrow> ('a::one, 'fd) file_printer" where
  "file_printer_init format inp fd =
     \<lparr>fp_scale = 1, fp_in = inp, fp_format = format, fp_fdout = fd\<rparr>"

text \<open>
  The loop over the elements from \<^verbatim>\<open>pin\<close> to \<^verbatim>\<open>pend\<close>: \<^verbatim>\<open>char buf[256]\<close>, \<^verbatim>\<open>snprintf\<close> of
  the scaled element into it, and \<^verbatim>\<open>write\<close> of \<^verbatim>\<open>len\<close> bytes from it; \<^verbatim>\<open>len\<close> is passed
  as a \<^verbatim>\<open>size_t\<close> and the result of \<^verbatim>\<open>write\<close> is converted to \<^verbatim>\<open>int nw\<close>.
\<close>

fun file_printer_loop ::
  "snprintf_fn \<Rightarrow> ('fd, char) sys_write \<Rightarrow> 'a list \<Rightarrow> ('a::times, 'fd) file_printer
     \<Rightarrow> ('a, 'fd) file_printer failure + ('a, 'fd) file_printer" where
  "file_printer_loop snprintf sys_write [] s = Inr s"
| "file_printer_loop snprintf sys_write (x # pin) s =
     (case snprintf 256 (fp_format s (x * fp_scale s)) of
        (len, buf) \<Rightarrow>
          if len < 0 then Inl (Fatal ''obsolete glibc'' s)
          else
            (case sys_write (fp_fdout s) buf (nat (to_ulong len)) of
               (res, fd1) \<Rightarrow>
                 if to_int res \<noteq> len
                 then Inl (Fatal ''partial write'' (s\<lparr>fp_fdout := fd1\<rparr>))
                 else file_printer_loop snprintf sys_write pin (s\<lparr>fp_fdout := fd1\<rparr>)))"

text \<open>
  \<^verbatim>\<open>int n = in.readable()\<close> converts the count to \<^verbatim>\<open>int\<close>. The loop runs over the first
  \<open>n\<close> elements, over none when \<open>n\<close> is negative, and \<^verbatim>\<open>in.read(n)\<close> converts \<open>n\<close> to
  \<^verbatim>\<open>unsigned long\<close>.
\<close>

definition file_printer_run ::
  "snprintf_fn \<Rightarrow> ('fd, char) sys_write \<Rightarrow> ('a::times, 'fd) file_printer
     \<Rightarrow> ('a, 'fd) file_printer failure + ('a, 'fd) file_printer" where
  "file_printer_run snprintf sys_write s =
     (let n = to_int (int (readable (fp_in s))) in
      (case file_printer_loop snprintf sys_write (take (nat n) (rd (fp_in s))) s of
         Inl e \<Rightarrow> Inl e
       | Inr s1 \<Rightarrow>
           (case read (nat (to_ulong n)) (fp_in s1) of
              Inl e \<Rightarrow> Inl e
            | Inr r \<Rightarrow> Inr (s1\<lparr>fp_in := r\<rparr>))))"

subsection \<open>file\_carrayprinter\<close>

text \<open>
  Modelled from the spec: \<^verbatim>\<open>complex<T>\<close> (declared in leansdr/math.h, which is not among
  the sources) carries a real and an imaginary component of type \<^verbatim>\<open>T\<close>.
\<close>

record 'a complex =
  re :: 'a
  im :: 'a

text \<open>
  \<open>cp_fout\<close> is what \<^verbatim>\<open>fdopen\<close> returned in the constructor: \<open>None\<close> is the null
  pointer. \<open>cp_head\<close> renders the head template for the \<^verbatim>\<open>int\<close> count, \<open>cp_format\<close>
  the format template for the two scaled components.
\<close>

record ('a, 'f) file_carrayprinter =
  cp_scale :: 'a
  cp_in :: "'a complex pipereader"
  cp_head :: "int \<Rightarrow> string"
  cp_format :: "'a \<Rightarrow> 'a \<Rightarrow> string"
  cp_tail :: string
  cp_fout :: "'f option"

definition file_carrayprinter_init ::
  "(int \<Rightarrow> string) \<Rightarrow> ('a \<Rightarrow> 'a \<Rightarrow> string) \<Rightarrow> string \<Rightarrow> 'a complex pipereader
     \<Rightarrow> 'f option \<Rightarrow> ('a::one, 'f) file_carrayprinter" where
  "file_carrayprinter_init head format tail inp fdopen_result =
     \<lparr>cp_scale = 1, cp_in = inp, cp_head = head, cp_format = format, cp_tail = tail,
      cp_fout = fdopen_result\<rparr>"

fun file_carrayprinter_loop ::
  "'f lib_fprintf \<Rightarrow> ('a \<Rightarrow> 'a \<Rightarrow> string) \<Rightarrow> 'a::times \<Rightarrow> 'a complex list \<Rightarrow> 'f \<Rightarrow> 'f" where
  "file_carrayprinter_loop fprintf format scale [] f = f"
| "file_carrayprinter_loop fprintf format scale (x # pin) f =
     file_carrayprinter_loop fprintf format scale pin
       (fprintf f (format (re x * scale) (im x * scale)))"

text \<open>
  \<^verbatim>\<open>int n = in.readable()\<close> converts the count to \<^verbatim>\<open>int\<close>. The loop runs over the first
  \<open>n\<close> elements, over none when \<open>n\<close> is negative, and \<^verbatim>\<open>in.read(n)\<close> converts \<open>n\<close> to
  \<^verbatim>\<open>unsigned long\<close>.
\<close>

definition file_carrayprinter_run ::
  "'f lib_fprintf \<Rightarrow> 'f lib_fflush \<Rightarrow> ('a::times, 'f) file_carrayprinter
     \<Rightarrow> ('a, 'f) file_carrayprinter failure + ('a, 'f) file_carrayprinter" where
  "file_carrayprinter_run fprintf fflush s =
     (let n = to_int (int (readable (cp_in s)));
          fout1 =
            (case cp_fout s of
               None \<Rightarrow> None
             | Some f \<Rightarrow>
                 if n \<noteq> 0
                 then Some (fflush (fprintf
                        (file_carrayprinter_loop fprintf (cp_format s) (cp_scale s)
                           (take (nat n) (rd (cp_in s))) (fprintf f (cp_head s n)))
                        (cp_tail s)))
                 else Some f)
      in (case read (nat (to_ulong n)) (cp_in s) of
            Inl e \<Rightarrow> Inl e
          | Inr r \<Rightarrow> Inr (s\<lparr>cp_in := r, cp_fout := fout1\<rparr>)))"

subsection \<open>itemcounter\<close>

record ('a, 'b) itemcounter =
  ic_in :: "'a pipereader"
  ic_out :: "'b pipewriter"

text \<open>
  \<^verbatim>\<open>*out.wr() = count\<close> converts the \<^verbatim>\<open>unsigned long\<close> count to the numeric type
  \<^verbatim>\<open>Tout\<close>: \<open>of_nat\<close>, which for an unsigned integer type of \<open>w\<close> bits (\<open>'b = w word\<close>)
  reduces the count modulo \<open>2 ^ w\<close>.
\<close>

definition itemcounter_run ::
  "('a, 'b::semiring_1) itemcounter
     \<Rightarrow> ('a, 'b) itemcounter failure + ('a, 'b) itemcounter" where
  "itemcounter_run s =
     (if writable (ic_out s) < 1 then Inr s
      else
        let count = readable (ic_in s) in
        if count = 0 then Inr s
        else if length (wr (ic_out s)) = 0 then Inl Out_of_bounds
        else
          (case read count (ic_in s) of
             Inl e \<Rightarrow> Inl e
           | Inr r \<Rightarrow>
               (case written 1 ((ic_out s)\<lparr>window := (wr (ic_out s))[0 := of_nat count]\<rparr>) of
                  Inl e \<Rightarrow> Inl e
                | Inr w \<Rightarrow> Inr (s\<lparr>ic_in := r, ic_out := w\<rparr>))))"

subsection \<open>decimator\<close>

record 'a decimator =
  dc_d :: nat
  dc_in :: "'a pipereader"
  dc_out :: "'a pipewriter"

text \<open>The constructor stores the \<^verbatim>\<open>int\<close> argument in the \<^verbatim>\<open>unsigned int\<close> field.\<close>

definition decimator_init :: "int \<Rightarrow> 'a pipereader \<Rightarrow> 'a pipewriter \<Rightarrow> 'a decimator" where
  "decimator_init d0 inp outp = \<lparr>dc_d = nat (d0 mod 2 ^ 32), dc_in = inp, dc_out = outp\<rparr>"

text \<open>
  The copy loop \<^verbatim>\<open>for ( ; pin<pend; pin+=d, ++pout ) *pout = *pin\<close>. The pointers are
  offsets into the two windows; an access outside a window is \<open>Out_of_bounds\<close>. A loop
  that does not end is \<open>None\<close>.
\<close>

partial_function (option) decimator_loop ::
  "nat \<Rightarrow> nat \<Rightarrow> nat \<Rightarrow> nat \<Rightarrow> 'a list \<Rightarrow> 'a list \<Rightarrow> ('s failure + 'a list) option" where
  "decimator_loop d pin pend pout src dst =
     (if pin < pend then
        (if pin < length src \<and> pout < length dst
         then decimator_loop d (pin + d) pend (pout + 1) src (dst[pout := src ! pin])
         else Some (Inl Out_of_bounds))
      else Some (Inr dst))"

text \<open>
  Modelled from the spec: \<^verbatim>\<open>min\<close> (declared in leansdr/math.h, which is not among the
  sources) gives the smaller of its two arguments.
\<close>

definition decimator_run ::
  "'a decimator \<Rightarrow> ('a decimator failure + 'a decimator) option" where
  "decimator_run s =
     (if dc_d s = 0 then Some (Inl Div_by_zero)
      else
        let count = min (readable (dc_in s) div dc_d s) (writable (dc_out s)) in
        (case decimator_loop (dc_d s) 0 (count * dc_d s) 0 (rd (dc_in s)) (wr (dc_out s)) of
           None \<Rightarrow> None
         | Some (Inl e) \<Rightarrow> Some (Inl e)
         | Some (Inr dst) \<Rightarrow>
             (case read (count * dc_d s) (dc_in s) of
                Inl e \<Rightarrow> Some (Inl e)
              | Inr r \<Rightarrow>
                  (case written count ((dc_out s)\<lparr>window := dst\<rparr>) of
                     Inl e \<Rightarrow> Some (Inl e)
                   | Inr w \<Rightarrow> Some (Inr (s\<lparr>dc_in := r, dc_out := w\<rparr>))))))"

subsection \<open>Notions used in the statements\<close>

text \<open>
  \<open>reader_advanced r r' k\<close>: the reader handle went from \<open>r\<close> to \<open>r'\<close> by an advance of
  \<open>k\<close> elements that were readable. \<open>writer_advanced w w' k\<close>: the writer handle went
  from \<open>w\<close> to \<open>w'\<close> by committing \<open>k\<close> elements that were writable.
\<close>

definition reader_advanced :: "'a pipereader \<Rightarrow> 'a pipereader \<Rightarrow> nat \<Rightarrow> bool" where
  "reader_advanced r r' k \<longleftrightarrow> k \<le> readable r \<and> items r' = drop k (items r)"

definition writer_advanced :: "'a pipewriter \<Rightarrow> 'a pipewriter \<Rightarrow> nat \<Rightarrow> bool" where
  "writer_advanced w w' k \<longleftrightarrow>
     k \<le> writable w \<and> length (committed w') = length (committed w) + k \<and>
     writable w' + k = writable w"

text \<open>
  \<open>rewound sys_read sys_lseek bsize k fd\<close>: the descriptor after \<open>k\<close> rounds, each a
  \<^verbatim>\<open>read\<close> of zero bytes followed by an \<^verbatim>\<open>lseek\<close> that succeeds; \<open>None\<close> when one of the
  first \<open>k\<close> rounds is not of this kind.
\<close>

fun rewound :: "'fd sys_read \<Rightarrow> 'fd sys_lseek \<Rightarrow> nat \<Rightarrow> nat \<Rightarrow> 'fd \<Rightarrow> 'fd option" where
  "rewound sys_read sys_lseek bsize 0 fd = Some fd"
| "rewound sys_read sys_lseek bsize (Suc k) fd =
     (case sys_read fd bsize of
        (None, fd1) \<Rightarrow> None
      | (Some bs, fd1) \<Rightarrow>
          if bs = [] then
            (case sys_lseek fd1 of
               (res, fd2) \<Rightarrow> if res = - 1 then None else rewound sys_read sys_lseek bsize k fd2)
          else None)"

subsection \<open>Descriptors, streams and formats for the examples\<close>

text \<open>
  \<open>eof_read\<close>: a descriptor at which every \<^verbatim>\<open>read\<close> returns zero bytes (an empty file).
  \<open>late_read\<close>: a descriptor whose first two reads return zero bytes and whose later
  reads deliver up to four bytes (a file that grows); its state counts the reads.
  \<open>seek_ok\<close>: every \<^verbatim>\<open>lseek\<close> succeeds.
  \<open>full_write\<close> accepts every byte it is given and \<open>half_write\<close> half of them; their
  state counts the bytes accepted.
  \<open>format_0300d\<close>: what the template \<^verbatim>\<open>%0300d\<close> renders for a value below 10.
  \<open>plain_item\<close>, \<open>plain_head\<close> and \<open>plain_format\<close>: templates without a conversion.
  \<open>cfile\<close>: a stream that never fails, as the text in its buffer and the text that has
  reached the descriptor, with its \<open>cfile_fprintf\<close> and \<open>cfile_fflush\<close>.
\<close>

definition eof_read :: "'fd sys_read" where
  "eof_read fd n = (Some [], fd)"

definition late_read :: "nat sys_read" where
  "late_read fd n = (if fd < 2 then Some [] else Some (take n [1, 2, 3, 4]), Suc fd)"

definition seek_ok :: "'fd sys_lseek" where
  "seek_ok fd = (0, fd)"

definition full_write :: "(nat, 'b) sys_write" where
  "full_write fd buf n = (int n, fd + n)"

definition half_write :: "(nat, 'b) sys_write" where
  "half_write fd buf n = (int (n div 2), fd + n div 2)"

definition format_0300d :: "nat \<Rightarrow> string" where
  "format_0300d v = replicate 299 (CHR ''0'') @ [char_of (48 + v mod 10)]"

definition plain_item :: "'a \<Rightarrow> string" where
  "plain_item v = ''v''"

definition plain_head :: "int \<Rightarrow> string" where
  "plain_head n = ''h''"

definition plain_format :: "'a \<Rightarrow> 'a \<Rightarrow> string" where
  "plain_format a b = ''f''"

record cfile =
  buffered :: string
  flushed :: string

definition cfile_fprintf :: "cfile lib_fprintf" where
  "cfile_fprintf f text = f\<lparr>buffered := buffered f @ text\<rparr>"

definition cfile_fflush :: "cfile lib_fflush" where
  "cfile_fflush f = f\<lparr>flushed := flushed f @ buffered f, buffered := []\<rparr>"

section \<open>Properties\<close>

subsection \<open>decimator\<close>

lemma decimator_loop_steps:
  "0 < d \<Longrightarrow> pout + k \<le> length dst \<Longrightarrow> (0 < k \<longrightarrow> pin + (k - 1) * d < length src) \<Longrightarrow>
   \<exists>r. (decimator_loop d pin (pin + k * d) pout src dst :: ('s failure + 'a list) option) =
         Some (Inr r) \<and> length r = length dst \<and>
       (\<forall>j < length dst. r ! j =
          (if pout \<le> j \<and> j < pout + k then src ! (pin + (j - pout) * d) else dst ! j))"
proof (induction k arbitrary: pin pout dst)
  case 0
  then show ?case by (subst decimator_loop.simps) auto
next
  case (Suc k)
  let ?dst = "dst[pout := src ! pin]"
  have b1: "pin < length src" using Suc.prems by (cases k) auto
  have b2: "pout < length dst" using Suc.prems by simp
  have p1: "(pout + 1) + k \<le> length ?dst" using Suc.prems by simp
  have p2: "0 < k \<longrightarrow> (pin + d) + (k - 1) * d < length src"
  proof
    assume "0 < k"
    then obtain k' where k': "k = Suc k'" by (cases k) auto
    with Suc.prems(3) show "(pin + d) + (k - 1) * d < length src"
      by (simp add: add.assoc add.commute)
  qed
  from Suc.IH [OF Suc.prems(1) p1 p2] obtain r where
    r: "(decimator_loop d (pin + d) ((pin + d) + k * d) (pout + 1) src ?dst
          :: ('s failure + 'a list) option) = Some (Inr r)"
    and lr: "length r = length ?dst"
    and nr: "\<forall>j < length ?dst. r ! j =
          (if pout + 1 \<le> j \<and> j < pout + 1 + k
           then src ! ((pin + d) + (j - (pout + 1)) * d) else ?dst ! j)"
    by blast
  have e: "pin + Suc k * d = (pin + d) + k * d" by simp
  have lt: "pin < pin + Suc k * d" using Suc.prems(1) by simp
  have unf: "(decimator_loop d pin (pin + Suc k * d) pout src dst
      :: ('s failure + 'a list) option) = Some (Inr r)"
    apply (subst decimator_loop.simps)
    using lt b1 b2 r unfolding e by simp
  have "\<forall>j < length dst. r ! j =
          (if pout \<le> j \<and> j < pout + Suc k then src ! (pin + (j - pout) * d) else dst ! j)"
  proof (intro allI impI)
    fix j assume j: "j < length dst"
    show "r ! j = (if pout \<le> j \<and> j < pout + Suc k then src ! (pin + (j - pout) * d) else dst ! j)"
    proof (cases "j = pout")
      case True
      then show ?thesis using nr j b2 by simp
    next
      case False
      show ?thesis
      proof (cases "pout + 1 \<le> j \<and> j < pout + 1 + k")
        case True
        then obtain m where m: "j - pout = Suc m" "j - (pout + 1) = m"
          by (cases "j - pout") auto
        show ?thesis using nr j True m by (simp add: add.assoc)
      next
        case False
        with \<open>j \<noteq> pout\<close> show ?thesis using nr j by auto
      qed
    qed
  qed
  with unf lr show ?case by auto
qed

lemma decimator_count_bounds:
  fixes d n a c :: nat
  assumes "0 < d" "n = min (a div d) c"
  shows "n * d \<le> a" "n \<le> c" "0 < n \<longrightarrow> (n - 1) * d < a"
proof -
  have nd: "n \<le> a div d" unfolding assms(2) by (rule min.cobounded1)
  have "n * d \<le> (a div d) * d" using nd by (rule mult_le_mono1)
  also have "\<dots> \<le> a" by simp
  finally show le: "n * d \<le> a" .
  show "n \<le> c" unfolding assms(2) by (rule min.cobounded2)
  show "0 < n \<longrightarrow> (n - 1) * d < a"
  proof
    assume "0 < n"
    then obtain m where m: "n = Suc m" by (cases n) auto
    have "m * d < m * d + d" using assms(1) by simp
    also have "\<dots> = n * d" using m by simp
    finally show "(n - 1) * d < a" using le m by simp
  qed
qed

lemma decimator_run_result:
  assumes d: "0 < dc_d s"
  defines "n \<equiv> min (readable (dc_in s) div dc_d s) (writable (dc_out s))"
  shows "decimator_run s =
     Some (Inr (s\<lparr>dc_in := (dc_in s)\<lparr>items := drop (n * dc_d s) (items (dc_in s))\<rparr>,
                  dc_out := (dc_out s)\<lparr>committed := committed (dc_out s) @
                                  map (\<lambda>i. items (dc_in s) ! (i * dc_d s)) [0..<n],
                                window := drop n (window (dc_out s))\<rparr>\<rparr>))"
proof -
  let ?src = "items (dc_in s)" and ?dst = "window (dc_out s)" and ?d = "dc_d s"
  have n: "n = min (length ?src div ?d) (length ?dst)"
    by (simp add: n_def readable_def writable_def)
  note bs = decimator_count_bounds [OF d n]
  have "0 + n \<le> length ?dst" using bs(2) by simp
  moreover have "0 < n \<longrightarrow> 0 + (n - 1) * ?d < length ?src" using bs(3) by simp
  ultimately obtain r where
    r: "(decimator_loop ?d 0 (0 + n * ?d) 0 ?src ?dst
          :: ('a decimator failure + 'a list) option) = Some (Inr r)"
    and lr: "length r = length ?dst"
    and nr: "\<forall>j < length ?dst. r ! j =
          (if 0 \<le> j \<and> j < 0 + n then ?src ! (0 + (j - 0) * ?d) else ?dst ! j)"
    using decimator_loop_steps [OF d, of 0 n ?dst 0 ?src] by blast
  have tk: "take n r = map (\<lambda>i. ?src ! (i * ?d)) [0..<n]"
    using lr nr bs(2) by (intro nth_equalityI) auto
  have dr: "drop n r = drop n ?dst"
    using lr nr bs(2) by (intro nth_equalityI) auto
  have rd_ok: "(read (n * ?d) (dc_in s) :: 'a decimator failure + 'a pipereader) =
      Inr ((dc_in s)\<lparr>items := drop (n * ?d) ?src\<rparr>)"
    using bs(1) by (simp add: read_def readable_def)
  have wr_ok: "(written n ((dc_out s)\<lparr>window := r\<rparr>) :: 'a decimator failure + 'a pipewriter) =
      Inr ((dc_out s)\<lparr>committed := committed (dc_out s) @ map (\<lambda>i. ?src ! (i * ?d)) [0..<n],
                       window := drop n ?dst\<rparr>)"
    using bs(2) lr tk dr by (simp add: written_def writable_def)
  show ?thesis
    using d r rd_ok wr_ok
    by (simp add: decimator_run_def Let_def rd_def wr_def n [symmetric] readable_def writable_def)
qed

text \<open>
  C2. With a stride \<open>d \<ge> 1\<close>, one invocation of the decimator computes
  \<open>n = min (readable div d) writable\<close>, commits the input elements at the offsets
  \<open>0, d, \<dots>, (n-1)d\<close> in this order to the output, advances the input by \<open>n * d\<close> and the
  output by \<open>n\<close>.
\<close>

theorem decimator_run_strided_copy:
  "0 < dc_d s \<Longrightarrow>
   decimator_run s =
     Some (Inr (s\<lparr>dc_in := (dc_in s)\<lparr>items :=
                    drop (min (readable (dc_in s) div dc_d s) (writable (dc_out s)) * dc_d s)
                      (items (dc_in s))\<rparr>,
                  dc_out := (dc_out s)\<lparr>committed := committed (dc_out s) @
                      map (\<lambda>i. items (dc_in s) ! (i * dc_d s))
                        [0..<min (readable (dc_in s) div dc_d s) (writable (dc_out s))],
                    window :=
                      drop (min (readable (dc_in s) div dc_d s) (writable (dc_out s)))
                        (window (dc_out s))\<rparr>\<rparr>))"
  by (rule decimator_run_result)

text \<open>
  The example of the specification: stride 3, the seven readable elements 0 to 6 and four
  free slots give the output 0, 3; six elements are consumed and 6 stays buffered.
\<close>

theorem decimator_run_strided_copy_witness:
  "0 < dc_d \<lparr>dc_d = 3, dc_in = \<lparr>items = [0, 1, 2, 3, 4, 5, 6 :: int]\<rparr>,
       dc_out = \<lparr>committed = [], window = [0, 0, 0, 0]\<rparr>\<rparr> \<and>
   decimator_run \<lparr>dc_d = 3, dc_in = \<lparr>items = [0, 1, 2, 3, 4, 5, 6 :: int]\<rparr>,
       dc_out = \<lparr>committed = [], window = [0, 0, 0, 0]\<rparr>\<rparr> =
     Some (Inr \<lparr>dc_d = 3, dc_in = \<lparr>items = [6]\<rparr>,
       dc_out = \<lparr>committed = [0, 3], window = [0, 0]\<rparr>\<rparr>)"
  using decimator_run_strided_copy [of "\<lparr>dc_d = 3, dc_in = \<lparr>items = [0, 1, 2, 3, 4, 5, 6 :: int]\<rparr>,
       dc_out = \<lparr>committed = [], window = [0, 0, 0, 0]\<rparr>\<rparr>"]
  by (simp add: readable_def writable_def upt_rec)

text \<open>
  C9. With \<open>d \<ge> 1\<close> every invocation of the decimator returns: it does not divide by
  zero, no access leaves a window and no handle is overrun. Each element read is at an
  offset \<open>i * d \<le> (n - 1) * d\<close>, which is below the readable count, and each element
  written at an offset below \<open>min n writable\<close>.
\<close>

theorem decimator_run_in_bounds:
  "0 < dc_d s \<Longrightarrow>
   (\<exists>s'. decimator_run s = Some (Inr s')) \<and>
   (\<forall>i < min (readable (dc_in s) div dc_d s) (writable (dc_out s)).
      i * dc_d s \<le> (min (readable (dc_in s) div dc_d s) (writable (dc_out s)) - 1) * dc_d s \<and>
      (min (readable (dc_in s) div dc_d s) (writable (dc_out s)) - 1) * dc_d s < readable (dc_in s) \<and>
      i < min (min (readable (dc_in s) div dc_d s) (writable (dc_out s))) (writable (dc_out s)))"
proof -
  assume d: "0 < dc_d s"
  define n where "n = min (readable (dc_in s) div dc_d s) (writable (dc_out s))"
  note bs = decimator_count_bounds [OF d n_def]
  have "\<exists>s'. decimator_run s = Some (Inr s')"
    using decimator_run_result [OF d] by blast
  moreover have "\<forall>i < n. i * dc_d s \<le> (n - 1) * dc_d s \<and> (n - 1) * dc_d s < readable (dc_in s) \<and>
      i < min n (writable (dc_out s))"
  proof (intro allI impI)
    fix i assume i: "i < n"
    then have "i \<le> n - 1" by simp
    then have "i * dc_d s \<le> (n - 1) * dc_d s" by (rule mult_le_mono1)
    moreover have "(n - 1) * dc_d s < readable (dc_in s)" using bs(3) i by simp
    moreover have "i < min n (writable (dc_out s))" using bs(2) i by simp
    ultimately show "i * dc_d s \<le> (n - 1) * dc_d s \<and> (n - 1) * dc_d s < readable (dc_in s) \<and>
      i < min n (writable (dc_out s))" by simp
  qed
  ultimately show ?thesis unfolding n_def by simp
qed

theorem decimator_run_in_bounds_witness:
  "0 < dc_d (decimator_init 2 \<lparr>items = [10, 11, 12, 13, 14 :: int]\<rparr>
       \<lparr>committed = [], window = [0, 0, 0]\<rparr>) \<and>
   (\<exists>s'. decimator_run (decimator_init 2 \<lparr>items = [10, 11, 12, 13, 14 :: int]\<rparr>
       \<lparr>committed = [], window = [0, 0, 0]\<rparr>) = Some (Inr s')) \<and>
   (1 :: nat) * 2 \<le> (2 - 1) * 2 \<and> (2 - 1) * 2 < (5 :: nat) \<and> (1 :: nat) < min 2 3"
  using decimator_run_in_bounds [of "decimator_init 2 \<lparr>items = [10, 11, 12, 13, 14 :: int]\<rparr>
       \<lparr>committed = [], window = [0, 0, 0]\<rparr>"]
  by (simp add: decimator_init_def readable_def writable_def)

subsection \<open>itemcounter\<close>

text \<open>
  C4 as stated does not hold: the value written is the count converted to the output type.
  With an output type of 8 bits without sign and 300 readable elements it is 44, the count
  modulo 256.
\<close>

theorem itemcounter_run_narrow_output_counterexample:
  "itemcounter_run \<lparr>ic_in = \<lparr>items = replicate 300 (7 :: nat)\<rparr>,
       ic_out = \<lparr>committed = [], window = [0 :: 8 word]\<rparr>\<rparr> =
     Inr \<lparr>ic_in = \<lparr>items = []\<rparr>, ic_out = \<lparr>committed = [44], window = []\<rparr>\<rparr> \<and>
   unat (44 :: 8 word) = 44"
  by (simp add: itemcounter_run_def Let_def readable_def writable_def wr_def read_def
      written_def)

text \<open>
  C4, amended. With a free output slot and a readable input element, one invocation of
  the item counter writes one output element, the number of readable input elements
  converted to the output type (\<open>of_nat\<close>), advances the input by that number and the
  output by 1. With no free slot or no readable element it changes nothing.
\<close>

theorem itemcounter_run_counts:
  "(1 \<le> writable (ic_out s) \<and> 1 \<le> readable (ic_in s) \<longrightarrow>
      itemcounter_run s =
        Inr (s\<lparr>ic_in := (ic_in s)\<lparr>items := drop (readable (ic_in s)) (items (ic_in s))\<rparr>,
               ic_out := (ic_out s)\<lparr>committed := committed (ic_out s) @ [of_nat (readable (ic_in s))],
                                    window := drop 1 (window (ic_out s))\<rparr>\<rparr>) \<and>
      drop (readable (ic_in s)) (items (ic_in s)) = []) \<and>
   (writable (ic_out s) = 0 \<or> readable (ic_in s) = 0 \<longrightarrow> itemcounter_run s = Inr s)"
proof (intro conjI impI)
  assume a: "1 \<le> writable (ic_out s) \<and> 1 \<le> readable (ic_in s)"
  then obtain x slots where w: "window (ic_out s) = x # slots"
    by (cases "window (ic_out s)") (auto simp: writable_def)
  show "itemcounter_run s =
        Inr (s\<lparr>ic_in := (ic_in s)\<lparr>items := drop (readable (ic_in s)) (items (ic_in s))\<rparr>,
               ic_out := (ic_out s)\<lparr>committed := committed (ic_out s) @ [of_nat (readable (ic_in s))],
                                    window := drop 1 (window (ic_out s))\<rparr>\<rparr>)"
    using a w
    by (auto simp: itemcounter_run_def Let_def readable_def writable_def wr_def read_def
        written_def)
  show "drop (readable (ic_in s)) (items (ic_in s)) = []"
    by (simp add: readable_def)
next
  assume "writable (ic_out s) = 0 \<or> readable (ic_in s) = 0"
  then show "itemcounter_run s = Inr s"
    by (auto simp: itemcounter_run_def Let_def)
qed

text \<open>
  The example of the specification: 5000 readable elements and one free slot give the
  single output 5000 and an empty input; the next invocation, with no free slot, is a
  no-op.
\<close>

theorem itemcounter_run_counts_witness:
  "itemcounter_run \<lparr>ic_in = \<lparr>items = replicate 5000 (7 :: nat)\<rparr>,
       ic_out = \<lparr>committed = [], window = [0 :: int]\<rparr>\<rparr> =
     Inr \<lparr>ic_in = \<lparr>items = []\<rparr>, ic_out = \<lparr>committed = [5000], window = []\<rparr>\<rparr> \<and>
   itemcounter_run \<lparr>ic_in = \<lparr>items = replicate 5000 (7 :: nat)\<rparr>,
       ic_out = \<lparr>committed = [5000 :: int], window = []\<rparr>\<rparr> =
     Inr \<lparr>ic_in = \<lparr>items = replicate 5000 (7 :: nat)\<rparr>,
       ic_out = \<lparr>committed = [5000 :: int], window = []\<rparr>\<rparr>"
  using itemcounter_run_counts [of "\<lparr>ic_in = \<lparr>items = replicate 5000 (7 :: nat)\<rparr>,
       ic_out = \<lparr>committed = [], window = [0 :: int]\<rparr>\<rparr>"]
    itemcounter_run_counts [of "\<lparr>ic_in = \<lparr>items = replicate 5000 (7 :: nat)\<rparr>,
       ic_out = \<lparr>committed = [5000 :: int], window = []\<rparr>\<rparr>"]
  by (simp add: readable_def writable_def)

subsection \<open>file\_reader\<close>

lemma file_reader_again_rewound:
  "k = 0 \<or> fr_loop s \<Longrightarrow> rewound sys_read sys_lseek bsize k (fr_fdin s) = Some fd \<Longrightarrow>
   file_reader_again sz sys_read sys_lseek bsize s =
   file_reader_again sz sys_read sys_lseek bsize (s\<lparr>fr_fdin := fd\<rparr>)"
proof (induction k arbitrary: s)
  case 0
  then show ?case by auto
next
  case (Suc k)
  then have loop: "fr_loop s" by simp
  obtain r fd1 where rd1: "sys_read (fr_fdin s) bsize = (r, fd1)" by (cases "sys_read (fr_fdin s) bsize")
  obtain res fd2 where sk1: "sys_lseek fd1 = (res, fd2)" by (cases "sys_lseek fd1")
  from Suc.prems(2) rd1 sk1 have r: "r = Some []" and res: "res \<noteq> - 1"
    and rest: "rewound sys_read sys_lseek bsize k fd2 = Some fd"
    by (auto split: option.splits if_splits)
  have "file_reader_again sz sys_read sys_lseek bsize s =
        file_reader_again sz sys_read sys_lseek bsize (s\<lparr>fr_fdin := fd2\<rparr>)"
    by (subst file_reader_again.simps) (simp add: rd1 sk1 r res loop)
  also have "\<dots> = file_reader_again sz sys_read sys_lseek bsize (s\<lparr>fr_fdin := fd2\<rparr>\<lparr>fr_fdin := fd\<rparr>)"
    by (rule Suc.IH) (simp_all add: loop rest)
  finally show ?case by simp
qed

lemma file_reader_again_decisive:
  "fst (sys_read (fr_fdin s) bsize) \<noteq> Some [] \<or> \<not> fr_loop s \<or>
     fst (sys_lseek (snd (sys_read (fr_fdin s) bsize))) = - 1 \<Longrightarrow>
   file_reader_again sz sys_read sys_lseek bsize s \<noteq> None"
  by (subst file_reader_again.simps)
     (auto split: prod.splits option.splits sum.splits)

lemma file_reader_again_partial:
  "sys_read (fr_fdin s) bsize = (Some bs, fd1) \<Longrightarrow> 0 < length bs \<Longrightarrow> length bs mod sz \<noteq> 0 \<Longrightarrow>
   file_reader_again sz sys_read sys_lseek bsize s =
     Some (Inl (Fatal ''partial read''
       (s\<lparr>fr_fdin := fd1,
          fr_out := (fr_out s)\<lparr>window := store_bytes sz bs (wr (fr_out s))\<rparr>\<rparr>)))"
  by (subst file_reader_again.simps) simp

lemma file_reader_again_eof_loops:
  assumes "file_reader_again sz sys_read sys_lseek bsize s = Some y"
  shows "\<not> (sys_read = eof_read \<and> sys_lseek = seek_ok \<and> fr_loop s)"
proof (rule file_reader_again.raw_induct
    [where P = "\<lambda>sz sys_read sys_lseek bsize s y.
       \<not> (sys_read = eof_read \<and> sys_lseek = seek_ok \<and> fr_loop s)", OF _ assms])
  fix again :: "nat \<Rightarrow> 'a sys_read \<Rightarrow> 'a sys_lseek \<Rightarrow> nat \<Rightarrow> 'a file_reader
      \<Rightarrow> ('a file_reader failure + 'a file_reader) option"
  fix sz sys_read sys_lseek bsize s y
  assume IH: "\<And>sz sys_read sys_lseek bsize s y. again sz sys_read sys_lseek bsize s = Some y \<Longrightarrow>
      \<not> (sys_read = eof_read \<and> sys_lseek = seek_ok \<and> fr_loop s)"
  assume step: "(case sys_read (fr_fdin s) bsize of
        (None, fd1) \<Rightarrow> Some (Inl (Fatal ''read'' (s\<lparr>fr_fdin := fd1\<rparr>)))
      | (Some bs, fd1) \<Rightarrow>
          if length bs = 0 \<and> \<not> fr_loop s then Some (Inr (s\<lparr>fr_fdin := fd1\<rparr>))
          else if length bs = 0 then
            (case sys_lseek fd1 of (res, fd2) \<Rightarrow>
               if res = - 1 then Some (Inl (Fatal ''lseek'' (s\<lparr>fr_fdin := fd2\<rparr>)))
               else again sz sys_read sys_lseek bsize (s\<lparr>fr_fdin := fd2\<rparr>))
          else if length bs mod sz \<noteq> 0 then
            Some (Inl (Fatal ''partial read''
              (s\<lparr>fr_fdin := fd1,
                 fr_out := (fr_out s)\<lparr>window := store_bytes sz bs (wr (fr_out s))\<rparr>\<rparr>)))
          else
            (case written (length bs div sz)
                    ((fr_out s)\<lparr>window := store (chunks sz bs) (wr (fr_out s))\<rparr>) of
               Inl e \<Rightarrow> Some (Inl e)
             | Inr w \<Rightarrow> Some (Inr (s\<lparr>fr_fdin := fd1, fr_out := w\<rparr>)))) = Some y"
  show "\<not> (sys_read = eof_read \<and> sys_lseek = seek_ok \<and> fr_loop s)"
  proof
    assume a: "sys_read = eof_read \<and> sys_lseek = seek_ok \<and> fr_loop s"
    with step have "again sz eof_read seek_ok bsize (s\<lparr>fr_fdin := fr_fdin s\<rparr>) = Some y"
      by (simp add: eof_read_def seek_ok_def)
    from IH [OF this] a show False by simp
  qed
qed

text \<open>
  C1 as stated does not hold: with looping enabled, an invocation on a descriptor that
  returns zero bytes at every read and rewinds successfully never returns.
\<close>

theorem file_reader_run_eof_loop_counterexample:
  "file_reader_run 4 eof_read seek_ok
     \<lparr>fr_loop = True, fr_fdin = (), fr_out = \<lparr>committed = [], window = [[0, 0, 0, 0]]\<rparr>,
      fr_pos = 0\<rparr> = None"
proof -
  let ?s = "\<lparr>fr_loop = True, fr_fdin = (), fr_out = \<lparr>committed = [], window = [[0, 0, 0, 0 :: byte]]\<rparr>,
      fr_pos = 0\<rparr>"
  have "file_reader_again 4 eof_read seek_ok 4 ?s = None"
  proof (cases "file_reader_again 4 eof_read seek_ok 4 ?s")
    case None
    then show ?thesis .
  next
    case (Some y)
    from file_reader_again_eof_loops [OF Some] show ?thesis by simp
  qed
  then show ?thesis by (simp add: file_reader_run_def writable_def)
qed

text \<open>
  C1, amended. With looping enabled and free capacity, a read of zero bytes is followed by
  a seek to offset 0 and, when the seek succeeds, by another read in the same invocation,
  and so on for any number \<open>k\<close> of reads of zero bytes: after \<open>k\<close> such rounds the
  invocation goes on from the rewound descriptor. It returns at the first read that fails
  or returns a count other than zero, or at the first seek that fails.
\<close>

theorem file_reader_run_retries:
  "fr_loop s \<Longrightarrow> 0 < writable (fr_out s) * sz \<Longrightarrow>
   rewound sys_read sys_lseek (writable (fr_out s) * sz) k (fr_fdin s) = Some fd \<Longrightarrow>
   file_reader_run sz sys_read sys_lseek s =
     file_reader_again sz sys_read sys_lseek (writable (fr_out s) * sz) (s\<lparr>fr_fdin := fd\<rparr>) \<and>
   (fst (sys_read fd (writable (fr_out s) * sz)) \<noteq> Some [] \<or>
    fst (sys_lseek (snd (sys_read fd (writable (fr_out s) * sz)))) = - 1 \<longrightarrow>
      file_reader_run sz sys_read sys_lseek s \<noteq> None)"
proof -
  assume loop: "fr_loop s" and cap: "0 < writable (fr_out s) * sz"
    and rw: "rewound sys_read sys_lseek (writable (fr_out s) * sz) k (fr_fdin s) = Some fd"
  let ?b = "writable (fr_out s) * sz"
  have run: "file_reader_run sz sys_read sys_lseek s = file_reader_again sz sys_read sys_lseek ?b s"
    using cap by (simp add: file_reader_run_def Let_def)
  have eq: "file_reader_again sz sys_read sys_lseek ?b s =
      file_reader_again sz sys_read sys_lseek ?b (s\<lparr>fr_fdin := fd\<rparr>)"
    using loop rw by (intro file_reader_again_rewound [where k = k]) simp_all
  have "fst (sys_read fd ?b) \<noteq> Some [] \<or> fst (sys_lseek (snd (sys_read fd ?b))) = - 1 \<longrightarrow>
      file_reader_again sz sys_read sys_lseek ?b (s\<lparr>fr_fdin := fd\<rparr>) \<noteq> None"
    using file_reader_again_decisive [of sys_read "s\<lparr>fr_fdin := fd\<rparr>" ?b sys_lseek sz] by auto
  with run eq show ?thesis by simp
qed

text \<open>
  Two reads of zero bytes, each followed by a rewind, and a third read of four bytes, all
  in one invocation, which commits one element.
\<close>

theorem file_reader_run_retries_witness:
  "fr_loop \<lparr>fr_loop = True, fr_fdin = 0, fr_out = \<lparr>committed = [], window = [[0, 0, 0, 0]]\<rparr>,
      fr_pos = 0\<rparr> \<and>
   rewound late_read seek_ok 4 2 0 = Some 2 \<and>
   file_reader_run 4 late_read seek_ok
     \<lparr>fr_loop = True, fr_fdin = 0, fr_out = \<lparr>committed = [], window = [[0, 0, 0, 0]]\<rparr>,
      fr_pos = 0\<rparr> =
   Some (Inr \<lparr>fr_loop = True, fr_fdin = 3,
      fr_out = \<lparr>committed = [[1, 2, 3, 4]], window = []\<rparr>, fr_pos = 0\<rparr>)"
proof -
  let ?s = "\<lparr>fr_loop = True, fr_fdin = 0 :: nat,
      fr_out = \<lparr>committed = [], window = [[0, 0, 0, 0 :: byte]]\<rparr>, fr_pos = 0\<rparr>"
  have rw: "rewound late_read seek_ok 4 2 0 = Some 2"
    by (simp add: numeral_2_eq_2 late_read_def seek_ok_def)
  have ch: "chunks 4 [1, 2, 3, 4 :: byte] = [[1, 2, 3, 4]]"
    by (simp add: chunks.simps)
  have last: "file_reader_again 4 late_read seek_ok 4 (?s\<lparr>fr_fdin := 2\<rparr>) =
      Some (Inr \<lparr>fr_loop = True, fr_fdin = 3,
        fr_out = \<lparr>committed = [[1, 2, 3, 4]], window = []\<rparr>, fr_pos = 0\<rparr>)"
    by (subst file_reader_again.simps)
       (simp add: late_read_def ch written_def writable_def store_def wr_def)
  show ?thesis
    using file_reader_run_retries [of ?s 4 late_read seek_ok 2 2] rw last
    by (simp add: writable_def)
qed

text \<open>
  C10 as stated does not hold: the loop flag of a fresh reader is false and an invocation
  whose read returns zero bytes is idle, but the block is not idle for ever. Here the
  first invocation reads zero bytes and the second one, on the same descriptor, reads
  four bytes and commits an element.
\<close>

theorem file_reader_idle_counterexample:
  "file_reader_run 4 late_read seek_ok
     (file_reader_init 1 \<lparr>committed = [], window = [[0, 0, 0, 0]]\<rparr>) =
   Some (Inr \<lparr>fr_loop = False, fr_fdin = 2,
      fr_out = \<lparr>committed = [], window = [[0, 0, 0, 0]]\<rparr>, fr_pos = 0\<rparr>) \<and>
   file_reader_run 4 late_read seek_ok
     \<lparr>fr_loop = False, fr_fdin = 2,
      fr_out = \<lparr>committed = [], window = [[0, 0, 0, 0]]\<rparr>, fr_pos = 0\<rparr> =
   Some (Inr \<lparr>fr_loop = False, fr_fdin = 3,
      fr_out = \<lparr>committed = [[1, 2, 3, 4]], window = []\<rparr>, fr_pos = 0\<rparr>)"
proof -
  have ch: "chunks 4 [1, 2, 3, 4 :: byte] = [[1, 2, 3, 4]]"
    by (simp add: chunks.simps)
  have "file_reader_run 4 late_read seek_ok
     (file_reader_init 1 \<lparr>committed = [], window = [[0, 0, 0, 0]]\<rparr>) =
   Some (Inr \<lparr>fr_loop = False, fr_fdin = 2,
      fr_out = \<lparr>committed = [], window = [[0, 0, 0, 0]]\<rparr>, fr_pos = 0\<rparr>)"
    unfolding file_reader_run_def file_reader_init_def
    by (subst file_reader_again.simps) (simp add: late_read_def writable_def)
  moreover have "file_reader_run 4 late_read seek_ok
     \<lparr>fr_loop = False, fr_fdin = 2,
      fr_out = \<lparr>committed = [], window = [[0, 0, 0, 0]]\<rparr>, fr_pos = 0\<rparr> =
   Some (Inr \<lparr>fr_loop = False, fr_fdin = 3,
      fr_out = \<lparr>committed = [[1, 2, 3, 4]], window = []\<rparr>, fr_pos = 0\<rparr>)"
    unfolding file_reader_run_def
    by (subst file_reader_again.simps)
       (simp add: late_read_def ch written_def writable_def store_def wr_def)
  ultimately show ?thesis by simp
qed

text \<open>
  C10, amended. A freshly constructed reader has looping disabled. While the flag is
  false, an invocation with free capacity whose read returns zero bytes returns with no
  seek, no retry and no advance of the buffer: the state after it differs only in the
  descriptor, which is as the one read left it. The flag is still false afterwards, so
  the same holds for each later invocation whose read returns zero bytes again.
\<close>

theorem file_reader_idle_at_eof:
  "\<not> fr_loop (file_reader_init fd0 outp) \<and>
   (\<not> fr_loop s \<and> 0 < writable (fr_out s) * sz \<and>
    sys_read (fr_fdin s) (writable (fr_out s) * sz) = (Some [], fd1) \<longrightarrow>
      file_reader_run sz sys_read sys_lseek s = Some (Inr (s\<lparr>fr_fdin := fd1\<rparr>)) \<and>
      \<not> fr_loop (s\<lparr>fr_fdin := fd1\<rparr>) \<and> fr_out (s\<lparr>fr_fdin := fd1\<rparr>) = fr_out s)"
proof (intro conjI impI)
  show "\<not> fr_loop (file_reader_init fd0 outp)" by (simp add: file_reader_init_def)
next
  assume a: "\<not> fr_loop s \<and> 0 < writable (fr_out s) * sz \<and>
    sys_read (fr_fdin s) (writable (fr_out s) * sz) = (Some [], fd1)"
  then show "file_reader_run sz sys_read sys_lseek s = Some (Inr (s\<lparr>fr_fdin := fd1\<rparr>))"
    unfolding file_reader_run_def Let_def
    by (subst file_reader_again.simps) simp
  show "\<not> fr_loop (s\<lparr>fr_fdin := fd1\<rparr>)" using a by simp
  show "fr_out (s\<lparr>fr_fdin := fd1\<rparr>) = fr_out s" by simp
qed

theorem file_reader_idle_at_eof_witness:
  "\<not> fr_loop (file_reader_init (0 :: nat) \<lparr>committed = [], window = [[0, 0, 0, 0]]\<rparr>) \<and>
   late_read 0 4 = (Some [], 1) \<and>
   file_reader_run 4 late_read seek_ok
     (file_reader_init 0 \<lparr>committed = [], window = [[0, 0, 0, 0]]\<rparr>) =
   Some (Inr \<lparr>fr_loop = False, fr_fdin = 1,
      fr_out = \<lparr>committed = [], window = [[0, 0, 0, 0]]\<rparr>, fr_pos = 0\<rparr>)"
  using file_reader_idle_at_eof [of 0 "\<lparr>committed = [], window = [[0, 0, 0, 0 :: byte]]\<rparr>"
      "file_reader_init 0 \<lparr>committed = [], window = [[0, 0, 0, 0]]\<rparr>" 4 late_read 1 seek_ok]
  by (simp add: file_reader_init_def late_read_def writable_def)

subsection \<open>Integer conversions\<close>

lemma to_int_id: "- (2 ^ 31) \<le> x \<Longrightarrow> x < 2 ^ 31 \<Longrightarrow> to_int x = x"
  by (simp add: to_int_def mod_pos_pos_trivial)

lemma to_int_range: "- (2 ^ 31) \<le> to_int x \<and> to_int x < 2 ^ 31"
proof -
  have "0 \<le> (x + 2 ^ 31) mod (2 ^ 32 :: int)" by simp
  moreover have "(x + 2 ^ 31) mod (2 ^ 32 :: int) < 2 ^ 32" by simp
  ultimately show ?thesis by (simp add: to_int_def)
qed

lemma to_ulong_id: "0 \<le> x \<Longrightarrow> x < 2 ^ 64 \<Longrightarrow> to_ulong x = x"
  by (simp add: to_ulong_def mod_pos_pos_trivial)

lemma to_int_to_ulong: "to_int (to_ulong x) = to_int x"
proof -
  have "(x mod 2 ^ 64 + 2 ^ 31) mod (2 ^ 32 :: int) = ((x mod 2 ^ 64) mod 2 ^ 32 + 2 ^ 31) mod 2 ^ 32"
    by (simp add: mod_add_left_eq)
  also have "(x mod 2 ^ 64) mod (2 ^ 32 :: int) = x mod 2 ^ 32"
    by (rule mod_mod_cancel) simp
  also have "(x mod 2 ^ 32 + 2 ^ 31) mod (2 ^ 32 :: int) = (x + 2 ^ 31) mod 2 ^ 32"
    by (simp add: mod_add_left_eq)
  finally show ?thesis by (simp add: to_int_def to_ulong_def)
qed

lemma to_int_le: "0 \<le> x \<Longrightarrow> to_int x \<le> x"
proof -
  assume "0 \<le> x"
  then have "(x + 2 ^ 31) mod (2 ^ 32 :: int) \<le> x + 2 ^ 31"
    by (intro zmod_le_nonneg_dividend) simp
  then show ?thesis by (simp add: to_int_def)
qed

lemma to_int_neg_large: "0 \<le> x \<Longrightarrow> to_int x < 0 \<Longrightarrow> 2 ^ 31 \<le> x"
proof (rule ccontr)
  assume x: "0 \<le> x" and neg: "to_int x < 0" and "\<not> 2 ^ 31 \<le> x"
  then have "to_int x = x" by (intro to_int_id) simp_all
  with x neg show False by simp
qed

lemma to_ulong_pos_int: "0 < to_int x \<Longrightarrow> to_ulong (to_int x) = to_int x"
proof -
  assume "0 < to_int x"
  moreover have "to_int x < 2 ^ 31" using to_int_range [of x] by simp
  ultimately show ?thesis by (intro to_ulong_id) simp_all
qed

subsection \<open>file\_writer\<close>

lemma file_writer_run_step:
  assumes bsize: "to_int (to_ulong (int (readable (fw_in s)) * int sz)) = bsize"
    and nz: "bsize \<noteq> 0"
    and wr1: "sys_write (fw_fdout s) (concat (rd (fw_in s))) (nat (to_ulong bsize)) = (res, fd1)"
  shows "file_writer_run sz sys_write s =
     (if to_int res = 0 then Inl (Fatal ''pipe'' (s\<lparr>fw_fdout := fd1\<rparr>))
      else if to_int res < 0 then Inl (Fatal ''write'' (s\<lparr>fw_fdout := fd1\<rparr>))
      else if to_int res mod int sz \<noteq> 0 then Inl (Fatal ''partial write'' (s\<lparr>fw_fdout := fd1\<rparr>))
      else if nat (to_int res div int sz) \<le> readable (fw_in s)
        then Inr (s\<lparr>fw_in := (fw_in s)\<lparr>items := drop (nat (to_int res div int sz)) (items (fw_in s))\<rparr>,
                   fw_fdout := fd1\<rparr>)
      else Inl Overrun)"
proof (cases "0 < to_int res")
  case True
  then have "to_ulong (to_int res) = to_int res" by (rule to_ulong_pos_int)
  with True bsize nz wr1 show ?thesis
    by (simp add: file_writer_run_def Let_def read_def)
next
  case False
  with bsize nz wr1 show ?thesis
    by (auto simp: file_writer_run_def Let_def)
qed

lemma file_writer_run_success:
  assumes cap: "0 < readable (fw_in s) * sz"
    and small: "readable (fw_in s) * sz < 2 ^ 31"
    and wr1: "sys_write (fw_fdout s) (concat (rd (fw_in s))) (readable (fw_in s) * sz) = (nw, fd1)"
    and pos: "0 < nw" and whole: "nw mod int sz = 0"
    and le: "nw \<le> int (readable (fw_in s) * sz)"
  shows "file_writer_run sz sys_write s =
     Inr (s\<lparr>fw_in := (fw_in s)\<lparr>items := drop (nat (nw div int sz)) (items (fw_in s))\<rparr>,
            fw_fdout := fd1\<rparr>) \<and>
    nat (nw div int sz) \<le> readable (fw_in s) \<and>
    (nat (nw div int sz) = readable (fw_in s) \<longleftrightarrow> nw = int (readable (fw_in s) * sz))"
proof (intro conjI)
  let ?R = "int (readable (fw_in s)) * int sz"
  have sz: "0 < sz" using cap by simp
  have "int (readable (fw_in s) * sz) < int (2 ^ 31)"
    using small by (simp only: of_nat_less_iff)
  then have R2: "?R < 2 ^ 31" by simp
  have "int 0 < int (readable (fw_in s) * sz)"
    using cap by (simp only: of_nat_less_iff)
  then have R1: "0 < ?R" by simp
  note R = R1 R2
  have bsize: "to_int (to_ulong ?R) = ?R"
    using R by (simp add: to_int_to_ulong to_int_id)
  have cnt: "nat (to_ulong ?R) = readable (fw_in s) * sz"
    using R by (simp add: to_ulong_id nat_mult_distrib)
  have nw: "to_int nw = nw"
    using pos le R by (intro to_int_id) simp_all
  obtain q where q: "nw = int (q * sz)" and qd: "nat (nw div int sz) = q"
  proof
    have "nw = (nw div int sz) * int sz" using whole by (simp add: mod_0_imp_dvd)
    moreover have "0 \<le> nw div int sz" using pos sz by (simp add: pos_imp_zdiv_nonneg_iff)
    ultimately show "nw = int (nat (nw div int sz) * sz)" by simp
    show "nat (nw div int sz) = nat (nw div int sz)" ..
  qed
  have "int (q * sz) \<le> int (readable (fw_in s) * sz)" using le q by simp
  then have "q * sz \<le> readable (fw_in s) * sz" by (simp only: of_nat_le_iff)
  then show k: "nat (nw div int sz) \<le> readable (fw_in s)" using sz qd by simp
  have "sys_write (fw_fdout s) (concat (rd (fw_in s))) (nat (to_ulong ?R)) = (nw, fd1)"
    using wr1 cnt by simp
  moreover have "?R \<noteq> 0"
  proof
    assume "?R = 0"
    with R1 show False by (simp only: less_irrefl)
  qed
  ultimately have "file_writer_run sz sys_write s =
     (if to_int nw = 0 then Inl (Fatal ''pipe'' (s\<lparr>fw_fdout := fd1\<rparr>))
      else if to_int nw < 0 then Inl (Fatal ''write'' (s\<lparr>fw_fdout := fd1\<rparr>))
      else if to_int nw mod int sz \<noteq> 0 then Inl (Fatal ''partial write'' (s\<lparr>fw_fdout := fd1\<rparr>))
      else if nat (to_int nw div int sz) \<le> readable (fw_in s)
        then Inr (s\<lparr>fw_in := (fw_in s)\<lparr>items := drop (nat (to_int nw div int sz)) (items (fw_in s))\<rparr>,
                   fw_fdout := fd1\<rparr>)
      else Inl Overrun)"
    by (intro file_writer_run_step [where bsize = ?R] bsize)
  with pos whole k
  show "file_writer_run sz sys_write s =
     Inr (s\<lparr>fw_in := (fw_in s)\<lparr>items := drop (nat (nw div int sz)) (items (fw_in s))\<rparr>,
            fw_fdout := fd1\<rparr>)"
    by (simp add: nw)
  show "nat (nw div int sz) = readable (fw_in s) \<longleftrightarrow> nw = int (readable (fw_in s) * sz)"
    using q qd sz by auto
qed

lemma file_writer_run_wrapped_size:
  assumes len: "length xs = 2 ^ 29 + 1"
  shows "file_writer_run 8 full_write \<lparr>fw_in = \<lparr>items = xs\<rparr>, fw_fdout = 0\<rparr> =
     Inr \<lparr>fw_in = \<lparr>items = drop 1 xs\<rparr>, fw_fdout = 8\<rparr>"
proof -
  let ?s = "\<lparr>fw_in = \<lparr>items = xs\<rparr>, fw_fdout = 0 :: nat\<rparr>"
  have bsize: "to_int (to_ulong (int (readable (fw_in ?s)) * int 8)) = 8"
    by (simp add: readable_def len to_int_def to_ulong_def)
  have wr1: "full_write (fw_fdout ?s) (concat (rd (fw_in ?s))) (nat (to_ulong 8)) = (8, 8)"
    by (simp add: full_write_def to_ulong_def)
  have "file_writer_run 8 full_write ?s =
     (if to_int 8 = 0 then Inl (Fatal ''pipe'' (?s\<lparr>fw_fdout := 8\<rparr>))
      else if to_int 8 < 0 then Inl (Fatal ''write'' (?s\<lparr>fw_fdout := 8\<rparr>))
      else if to_int 8 mod int 8 \<noteq> 0 then Inl (Fatal ''partial write'' (?s\<lparr>fw_fdout := 8\<rparr>))
      else if nat (to_int 8 div int 8) \<le> readable (fw_in ?s)
        then Inr (?s\<lparr>fw_in := (fw_in ?s)\<lparr>items :=
                      drop (nat (to_int 8 div int 8)) (items (fw_in ?s))\<rparr>,
                   fw_fdout := 8\<rparr>)
      else Inl Overrun)"
  proof (rule file_writer_run_step
      [where bsize = 8 and s = ?s and sz = 8 and sys_write = full_write])
    show "to_int (to_ulong (int (readable (fw_in ?s)) * int 8)) = 8" by (rule bsize)
    show "8 \<noteq> (0 :: int)" by simp
    show "full_write (fw_fdout ?s) (concat (rd (fw_in ?s))) (nat (to_ulong 8)) = (8, 8)"
      by (rule wr1)
  qed
  then show ?thesis
    by (simp add: to_int_def readable_def len)
qed

text \<open>
  C5 as stated does not hold. A write that accepts four of the eight bytes offered, a whole
  number of two-byte elements, is a success, and the input is advanced by two of the four
  readable elements. And with \<open>2 ^ 29 + 1\<close> readable elements of eight bytes the \<^verbatim>\<open>int\<close> size
  is 8: the block offers eight bytes, the write accepts them, and the input is advanced by
  one element.
\<close>

theorem file_writer_run_short_write_counterexample:
  "file_writer_run 2 half_write
     \<lparr>fw_in = \<lparr>items = [[1, 2], [3, 4], [5, 6], [7, 8]]\<rparr>, fw_fdout = 0\<rparr> =
   Inr \<lparr>fw_in = \<lparr>items = [[5, 6], [7, 8]]\<rparr>, fw_fdout = 4\<rparr> \<and>
   file_writer_run 8 full_write
     \<lparr>fw_in = \<lparr>items = replicate (2 ^ 29 + 1) [1, 2, 3, 4, 5, 6, 7, 8]\<rparr>, fw_fdout = 0\<rparr> =
   Inr \<lparr>fw_in = \<lparr>items = replicate (2 ^ 29) [1, 2, 3, 4, 5, 6, 7, 8]\<rparr>, fw_fdout = 8\<rparr>"
proof
  show "file_writer_run 2 half_write
     \<lparr>fw_in = \<lparr>items = [[1, 2], [3, 4], [5, 6], [7, 8]]\<rparr>, fw_fdout = 0\<rparr> =
   Inr \<lparr>fw_in = \<lparr>items = [[5, 6], [7, 8]]\<rparr>, fw_fdout = 4\<rparr>"
    by (simp add: file_writer_run_def Let_def readable_def rd_def half_write_def read_def
        to_int_def to_ulong_def)
  show "file_writer_run 8 full_write
     \<lparr>fw_in = \<lparr>items = replicate (2 ^ 29 + 1) [1, 2, 3, 4, 5, 6, 7, 8]\<rparr>, fw_fdout = 0\<rparr> =
   Inr \<lparr>fw_in = \<lparr>items = replicate (2 ^ 29) [1, 2, 3, 4, 5, 6, 7, 8]\<rparr>, fw_fdout = 8\<rparr>"
    using file_writer_run_wrapped_size [of "replicate (2 ^ 29 + 1) [1, 2, 3, 4, 5, 6, 7, 8]"]
    by simp
qed

text \<open>
  C5, amended. When the readable bytes \<open>readable * sz\<close> are fewer than \<open>2 ^ 31\<close>, so that
  \<^verbatim>\<open>int size\<close> holds their number, and \<^verbatim>\<open>write\<close> returns a positive count \<open>nw\<close> that is a
  multiple of the element size and at most the bytes requested, the invocation advances
  the input by the \<open>nw div sz\<close> whole elements written. These are all the readable
  elements exactly when \<open>nw\<close> is the number of bytes requested.
\<close>

theorem file_writer_run_advances_written:
  "0 < readable (fw_in s) * sz \<Longrightarrow> readable (fw_in s) * sz < 2 ^ 31 \<Longrightarrow>
   sys_write (fw_fdout s) (concat (rd (fw_in s))) (readable (fw_in s) * sz) = (nw, fd1) \<Longrightarrow>
   0 < nw \<Longrightarrow> nw mod int sz = 0 \<Longrightarrow> nw \<le> int (readable (fw_in s) * sz) \<Longrightarrow>
   file_writer_run sz sys_write s =
     Inr (s\<lparr>fw_in := (fw_in s)\<lparr>items := drop (nat (nw div int sz)) (items (fw_in s))\<rparr>,
            fw_fdout := fd1\<rparr>) \<and>
   nat (nw div int sz) \<le> readable (fw_in s) \<and>
   (nat (nw div int sz) = readable (fw_in s) \<longleftrightarrow> nw = int (readable (fw_in s) * sz))"
  by (rule file_writer_run_success)

theorem file_writer_run_advances_written_witness:
  "0 < readable \<lparr>items = [[1, 2], [3, 4 :: byte]]\<rparr> * 2 \<and>
   readable \<lparr>items = [[1, 2], [3, 4 :: byte]]\<rparr> * 2 < 2 ^ 31 \<and>
   full_write (0 :: nat) (concat (rd \<lparr>items = [[1, 2], [3, 4 :: byte]]\<rparr>))
     (readable \<lparr>items = [[1, 2], [3, 4 :: byte]]\<rparr> * 2) = (4, 4) \<and>
   (0 :: int) < 4 \<and> (4 :: int) mod int 2 = 0 \<and>
   (4 :: int) \<le> int (readable \<lparr>items = [[1, 2], [3, 4 :: byte]]\<rparr> * 2) \<and>
   file_writer_run 2 full_write \<lparr>fw_in = \<lparr>items = [[1, 2], [3, 4]]\<rparr>, fw_fdout = 0\<rparr> =
     Inr \<lparr>fw_in = \<lparr>items = []\<rparr>, fw_fdout = 4\<rparr>"
  using file_writer_run_advances_written
    [of "\<lparr>fw_in = \<lparr>items = [[1, 2], [3, 4]]\<rparr>, fw_fdout = 0\<rparr>" 2 full_write 4 4]
  by (simp add: readable_def rd_def full_write_def)

subsection \<open>Partial transfers\<close>

lemma length_store: "length (store xs win) = length win"
  by (simp add: store_def)

lemma length_store_bytes: "length (store_bytes sz bs win) = length win"
  by (simp add: store_bytes_def Let_def length_store)

lemma write_result_fits_int:
  assumes bsize: "to_int x = bsize"
    and le: "res \<le> to_ulong bsize"
    and refused: "2 ^ 63 \<le> to_ulong bsize \<longrightarrow> res = - 1"
    and pos: "0 < res"
  shows "res < 2 ^ 31"
proof (cases "0 \<le> bsize")
  case True
  have "bsize < 2 ^ 31" using to_int_range [of x] bsize by simp
  moreover from this True have "to_ulong bsize = bsize" by (intro to_ulong_id) simp_all
  ultimately show ?thesis using le by simp
next
  case False
  have "- (2 ^ 31) \<le> bsize" using to_int_range [of x] bsize by simp
  with False have "to_ulong bsize = bsize + 2 ^ 64"
    by (simp add: to_ulong_def zmod_minus1 int_mod_pos_eq [where q = "- 1"])
  with \<open>- (2 ^ 31) \<le> bsize\<close> have "2 ^ 63 \<le> to_ulong bsize" by simp
  with refused pos show ?thesis by simp
qed

text \<open>
  C8. Every \<^verbatim>\<open>read\<close> of an invocation of the reader (the first one, or one after \<open>k\<close>
  rewinds when looping is enabled) that returns a positive number of bytes that is not a
  multiple of the element size makes the invocation end in \<^verbatim>\<open>fatal("partial read")\<close>, and
  a \<^verbatim>\<open>write\<close> of the writer that returns such a number makes the invocation end in
  \<^verbatim>\<open>fatal("partial write")\<close>. No handle has been advanced in the state in which the run is
  aborted: the reader's output has the committed elements and the writable count it had,
  and the writer's input is as it was. For the writer, \<^verbatim>\<open>write\<close> is taken to return at
  most the count it was given and to refuse, with \<open>-1\<close>, a count beyond the largest
  \<^verbatim>\<open>ssize_t\<close>, which it is given when \<^verbatim>\<open>int size\<close> is negative.
\<close>

theorem partial_transfer_is_fatal:
  "((k = 0 \<or> fr_loop s) \<and> 0 < writable (fr_out s) * sz \<and>
    rewound sys_read sys_lseek (writable (fr_out s) * sz) k (fr_fdin s) = Some fd \<and>
    sys_read fd (writable (fr_out s) * sz) = (Some bs, fd1) \<and>
    0 < length bs \<and> length bs mod sz \<noteq> 0 \<longrightarrow>
      file_reader_run sz sys_read sys_lseek s =
        Some (Inl (Fatal ''partial read''
          (s\<lparr>fr_fdin := fd1,
             fr_out := (fr_out s)\<lparr>window := store_bytes sz bs (wr (fr_out s))\<rparr>\<rparr>))) \<and>
      committed ((fr_out s)\<lparr>window := store_bytes sz bs (wr (fr_out s))\<rparr>) =
        committed (fr_out s) \<and>
      writable ((fr_out s)\<lparr>window := store_bytes sz bs (wr (fr_out s))\<rparr>) =
        writable (fr_out s)) \<and>
   (to_int (to_ulong (int (readable (fw_in w)) * int sz)) = bsize \<and> bsize \<noteq> 0 \<and>
    sys_write (fw_fdout w) (concat (rd (fw_in w))) (nat (to_ulong bsize)) = (nw, fd2) \<and>
    nw \<le> to_ulong bsize \<and> (2 ^ 63 \<le> to_ulong bsize \<longrightarrow> nw = - 1) \<and>
    0 < nw \<and> nw mod int sz \<noteq> 0 \<longrightarrow>
      file_writer_run sz sys_write w = Inl (Fatal ''partial write'' (w\<lparr>fw_fdout := fd2\<rparr>)) \<and>
      fw_in (w\<lparr>fw_fdout := fd2\<rparr>) = fw_in w)"
proof (intro conjI impI)
  let ?b = "writable (fr_out s) * sz"
  assume a: "(k = 0 \<or> fr_loop s) \<and> 0 < ?b \<and>
    rewound sys_read sys_lseek ?b k (fr_fdin s) = Some fd \<and>
    sys_read fd ?b = (Some bs, fd1) \<and> 0 < length bs \<and> length bs mod sz \<noteq> 0"
  have "file_reader_run sz sys_read sys_lseek s = file_reader_again sz sys_read sys_lseek ?b s"
    using a by (simp add: file_reader_run_def Let_def)
  also have "\<dots> = file_reader_again sz sys_read sys_lseek ?b (s\<lparr>fr_fdin := fd\<rparr>)"
    using a by (intro file_reader_again_rewound [where k = k]) simp_all
  also have "\<dots> = Some (Inl (Fatal ''partial read''
      ((s\<lparr>fr_fdin := fd\<rparr>)\<lparr>fr_fdin := fd1,
         fr_out := (fr_out (s\<lparr>fr_fdin := fd\<rparr>))\<lparr>window :=
           store_bytes sz bs (wr (fr_out (s\<lparr>fr_fdin := fd\<rparr>)))\<rparr>\<rparr>)))"
    using a by (intro file_reader_again_partial [where bs = bs and ?fd1.0 = fd1]) simp_all
  finally show "file_reader_run sz sys_read sys_lseek s =
        Some (Inl (Fatal ''partial read''
          (s\<lparr>fr_fdin := fd1,
             fr_out := (fr_out s)\<lparr>window := store_bytes sz bs (wr (fr_out s))\<rparr>\<rparr>)))"
    by simp
  show "committed ((fr_out s)\<lparr>window := store_bytes sz bs (wr (fr_out s))\<rparr>) =
        committed (fr_out s)"
    by simp
  show "writable ((fr_out s)\<lparr>window := store_bytes sz bs (wr (fr_out s))\<rparr>) =
        writable (fr_out s)"
    by (simp add: writable_def wr_def length_store_bytes)
next
  assume a: "to_int (to_ulong (int (readable (fw_in w)) * int sz)) = bsize \<and> bsize \<noteq> 0 \<and>
    sys_write (fw_fdout w) (concat (rd (fw_in w))) (nat (to_ulong bsize)) = (nw, fd2) \<and>
    nw \<le> to_ulong bsize \<and> (2 ^ 63 \<le> to_ulong bsize \<longrightarrow> nw = - 1) \<and>
    0 < nw \<and> nw mod int sz \<noteq> 0"
  then have "nw < 2 ^ 31"
    by (intro write_result_fits_int
        [where x = "to_ulong (int (readable (fw_in w)) * int sz)" and bsize = bsize]) simp_all
  with a have nw: "to_int nw = nw" by (intro to_int_id) simp_all
  have "file_writer_run sz sys_write w =
     (if to_int nw = 0 then Inl (Fatal ''pipe'' (w\<lparr>fw_fdout := fd2\<rparr>))
      else if to_int nw < 0 then Inl (Fatal ''write'' (w\<lparr>fw_fdout := fd2\<rparr>))
      else if to_int nw mod int sz \<noteq> 0 then Inl (Fatal ''partial write'' (w\<lparr>fw_fdout := fd2\<rparr>))
      else if nat (to_int nw div int sz) \<le> readable (fw_in w)
        then Inr (w\<lparr>fw_in := (fw_in w)\<lparr>items := drop (nat (to_int nw div int sz)) (items (fw_in w))\<rparr>,
                   fw_fdout := fd2\<rparr>)
      else Inl Overrun)"
    using a by (intro file_writer_run_step [where bsize = bsize]) simp_all
  with a nw show "file_writer_run sz sys_write w =
      Inl (Fatal ''partial write'' (w\<lparr>fw_fdout := fd2\<rparr>))"
    by simp
next
  show "fw_in (w\<lparr>fw_fdout := fd2\<rparr>) = fw_in w" by simp
qed

text \<open>
  A read of four bytes into a buffer of three-byte elements, after two rewinds, and a
  write that accepts one byte of a three-byte element.
\<close>

theorem partial_transfer_is_fatal_witness:
  "rewound late_read seek_ok 6 2 0 = Some 2 \<and>
   late_read 2 6 = (Some [1, 2, 3, 4], 3) \<and>
   file_reader_run 3 late_read seek_ok
     \<lparr>fr_loop = True, fr_fdin = 0,
      fr_out = \<lparr>committed = [], window = [[0, 0, 0], [0, 0, 0]]\<rparr>, fr_pos = 0\<rparr> =
     Some (Inl (Fatal ''partial read''
       \<lparr>fr_loop = True, fr_fdin = 3,
        fr_out = \<lparr>committed = [], window = [[1, 2, 3], [4, 0, 0]]\<rparr>, fr_pos = 0\<rparr>)) \<and>
   half_write (0 :: nat) [1, 2, 3 :: byte] 3 = (1, 1) \<and>
   file_writer_run 3 half_write \<lparr>fw_in = \<lparr>items = [[1, 2, 3]]\<rparr>, fw_fdout = 0\<rparr> =
     Inl (Fatal ''partial write'' \<lparr>fw_in = \<lparr>items = [[1, 2, 3]]\<rparr>, fw_fdout = 1\<rparr>)"
proof -
  have rw: "rewound late_read seek_ok 6 2 0 = Some 2"
    by (simp add: numeral_2_eq_2 late_read_def seek_ok_def)
  have rd1: "late_read 2 6 = (Some [1, 2, 3, 4], 3)"
    by (simp add: late_read_def)
  have wr1: "half_write (0 :: nat) [1, 2, 3 :: byte] 3 = (1, 1)"
    by (simp add: half_write_def)
  have ch: "chunks 3 [1, 2, 3, 4 :: byte] = [[1, 2, 3]]"
    by (simp add: chunks.simps)
  have sb: "store_bytes 3 [1, 2, 3, 4 :: byte] [[0, 0, 0], [0, 0, 0]] = [[1, 2, 3], [4, 0, 0]]"
    by (simp add: store_bytes_def Let_def ch store_def)
  have bsize: "to_int (to_ulong (int (readable \<lparr>items = [[1, 2, 3 :: byte]]\<rparr>) * int 3)) = 3"
    by (simp add: readable_def to_int_def to_ulong_def)
  show ?thesis
    using partial_transfer_is_fatal
      [of 2 "\<lparr>fr_loop = True, fr_fdin = 0,
          fr_out = \<lparr>committed = [], window = [[0, 0, 0], [0, 0, 0]]\<rparr>, fr_pos = 0\<rparr>"
        3 late_read seek_ok 2 "[1, 2, 3, 4]" 3
        "\<lparr>fw_in = \<lparr>items = [[1, 2, 3]]\<rparr>, fw_fdout = 0\<rparr>" 3 half_write 1 1]
      rw rd1 wr1 bsize
    by (simp add: writable_def rd_def wr_def sb to_ulong_def)
qed

subsection \<open>file\_printer\<close>

lemma small_count:
  fixes r :: nat
  assumes "r < 2 ^ 31"
  shows "to_int (int r) = int r" and "nat (to_ulong (int r)) = r"
proof -
  have "int r < int (2 ^ 31)" using assms by (simp only: of_nat_less_iff)
  then have r: "int r < 2 ^ 31" by simp
  then show "to_int (int r) = int r" by (intro to_int_id) simp_all
  have "to_ulong (int r) = int r" using r by (intro to_ulong_id) simp_all
  then show "nat (to_ulong (int r)) = r" by simp
qed

lemma file_printer_loop_c99_no_snprintf_failure:
  "file_printer_loop snprintf_c99 sys_write pin s \<noteq> Inl (Fatal ''obsolete glibc'' s')"
  by (induction pin arbitrary: s) (auto simp: snprintf_c99_def split: prod.splits)

text \<open>
  C3. The formatter does not end in a fatal error when the rendered text does not fit the
  256-byte buffer. With a C99 \<^verbatim>\<open>snprintf\<close>, the template \<^verbatim>\<open>%0300d\<close> and the element 1, the
  call returns 300, which is not negative; the block asks \<^verbatim>\<open>write\<close> for 300 bytes from the
  256-byte buffer and, when \<^verbatim>\<open>write\<close> reports 300 bytes, goes on and advances the input.
\<close>

theorem file_printer_run_overflow_not_fatal:
  "file_printer_run snprintf_c99 full_write
     \<lparr>fp_scale = 1, fp_in = \<lparr>items = [1]\<rparr>, fp_format = format_0300d, fp_fdout = 0\<rparr> =
   Inr \<lparr>fp_scale = 1, fp_in = \<lparr>items = []\<rparr>, fp_format = format_0300d, fp_fdout = 300\<rparr>"
  by (simp add: file_printer_run_def Let_def readable_def rd_def snprintf_c99_def
      format_0300d_def full_write_def read_def to_int_def to_ulong_def)

subsection \<open>file\_carrayprinter\<close>

text \<open>
  C6 as stated does not hold for every readable count: \<^verbatim>\<open>int n\<close> receives the count. With
  \<open>2 ^ 32\<close> readable elements and no stream, \<open>n\<close> is 0 and the invocation returns with the
  input as it was: no element is consumed.
\<close>

theorem file_carrayprinter_run_wrapped_count_counterexample:
  "file_carrayprinter_run cfile_fprintf cfile_fflush
     \<lparr>cp_scale = 1, cp_in = \<lparr>items = replicate (2 ^ 32) \<lparr>re = 1 :: int, im = 2\<rparr>\<rparr>,
      cp_head = plain_head, cp_format = plain_format, cp_tail = ''t'', cp_fout = None\<rparr> =
   Inr \<lparr>cp_scale = 1, cp_in = \<lparr>items = replicate (2 ^ 32) \<lparr>re = 1 :: int, im = 2\<rparr>\<rparr>,
      cp_head = plain_head, cp_format = plain_format, cp_tail = ''t'', cp_fout = None\<rparr>"
  by (simp add: file_carrayprinter_run_def Let_def read_def readable_def to_int_def
      to_ulong_def)

text \<open>
  C6, amended. When the stream is unavailable (\<^verbatim>\<open>fdopen\<close> returned the null pointer) and
  fewer than \<open>2 ^ 31\<close> elements are readable, so that \<^verbatim>\<open>int n\<close> holds their number, an
  invocation of the complex-array formatter advances the input past all readable
  elements, leaves every other part of the state as it was, calls neither \<^verbatim>\<open>fprintf\<close> nor
  \<^verbatim>\<open>fflush\<close>, so that nothing is emitted, and signals no error.
\<close>

theorem file_carrayprinter_run_discards:
  "cp_fout s = None \<Longrightarrow> readable (cp_in s) < 2 ^ 31 \<Longrightarrow>
   file_carrayprinter_run fprintf fflush s =
     Inr (s\<lparr>cp_in := (cp_in s)\<lparr>items := drop (readable (cp_in s)) (items (cp_in s))\<rparr>\<rparr>) \<and>
   drop (readable (cp_in s)) (items (cp_in s)) = [] \<and>
   cp_fout (s\<lparr>cp_in := (cp_in s)\<lparr>items := drop (readable (cp_in s)) (items (cp_in s))\<rparr>\<rparr>) = None"
proof -
  assume none: "cp_fout s = None" and small: "readable (cp_in s) < 2 ^ 31"
  note c = small_count [OF small]
  have "drop (readable (cp_in s)) (items (cp_in s)) = []" by (simp add: readable_def)
  moreover have "s\<lparr>cp_in := r, cp_fout := None\<rparr> = s\<lparr>cp_in := r\<rparr>" for r
    using none by (cases s) simp
  then have "file_carrayprinter_run fprintf fflush s =
     Inr (s\<lparr>cp_in := (cp_in s)\<lparr>items := drop (readable (cp_in s)) (items (cp_in s))\<rparr>\<rparr>)"
    using none by (simp add: file_carrayprinter_run_def Let_def c read_def)
  ultimately show ?thesis using none by simp
qed

theorem file_carrayprinter_run_discards_witness:
  "cp_fout (file_carrayprinter_init plain_head plain_format ''tail''
       \<lparr>items = [\<lparr>re = 1 :: int, im = 2\<rparr>, \<lparr>re = 3, im = 4\<rparr>]\<rparr> (None :: cfile option)) = None \<and>
   readable \<lparr>items = [\<lparr>re = 1 :: int, im = 2\<rparr>, \<lparr>re = 3, im = 4\<rparr>]\<rparr> < 2 ^ 31 \<and>
   file_carrayprinter_run cfile_fprintf cfile_fflush
     (file_carrayprinter_init plain_head plain_format ''tail''
       \<lparr>items = [\<lparr>re = 1 :: int, im = 2\<rparr>, \<lparr>re = 3, im = 4\<rparr>]\<rparr> None) =
     Inr (file_carrayprinter_init plain_head plain_format ''tail'' \<lparr>items = []\<rparr> None)"
  using file_carrayprinter_run_discards
    [of "file_carrayprinter_init plain_head plain_format ''tail''
       \<lparr>items = [\<lparr>re = 1 :: int, im = 2\<rparr>, \<lparr>re = 3, im = 4\<rparr>]\<rparr> None"
      cfile_fprintf cfile_fflush]
  by (simp add: file_carrayprinter_init_def readable_def)

subsection \<open>Advances stay within the counts queried\<close>

lemma written_advanced:
  "k \<le> length win \<Longrightarrow>
   \<exists>w'. (written k (w\<lparr>window := store xs win\<rparr>) :: 's failure + 'a pipewriter) = Inr w' \<and>
     length (committed w') = length (committed w) + k \<and> writable w' + k = length win"
  by (simp add: written_def writable_def length_store)

lemma file_reader_again_advance:
  assumes "file_reader_again sz sys_read sys_lseek bsize s = Some y"
  shows "(\<forall>fd n bs fd'. sys_read fd n = (Some bs, fd') \<longrightarrow> length bs \<le> n) \<longrightarrow>
     bsize = writable (fr_out s) * sz \<longrightarrow>
     y \<noteq> Inl Overrun \<and> (\<forall>s'. y = Inr s' \<longrightarrow> (\<exists>k. writer_advanced (fr_out s) (fr_out s') k))"
proof (rule file_reader_again.raw_induct
    [where P = "\<lambda>sz sys_read sys_lseek bsize s y.
       (\<forall>fd n bs fd'. sys_read fd n = (Some bs, fd') \<longrightarrow> length bs \<le> n) \<longrightarrow>
       bsize = writable (fr_out s) * sz \<longrightarrow>
       y \<noteq> Inl Overrun \<and>
       (\<forall>s'. y = Inr s' \<longrightarrow> (\<exists>k. writer_advanced (fr_out s) (fr_out s') k))", OF _ assms])
  fix again :: "nat \<Rightarrow> 'a sys_read \<Rightarrow> 'a sys_lseek \<Rightarrow> nat \<Rightarrow> 'a file_reader
      \<Rightarrow> ('a file_reader failure + 'a file_reader) option"
  fix sz sys_read sys_lseek bsize s y
  assume IH: "\<And>sz sys_read sys_lseek bsize s y. again sz sys_read sys_lseek bsize s = Some y \<Longrightarrow>
      (\<forall>fd n bs fd'. sys_read fd n = (Some bs, fd') \<longrightarrow> length bs \<le> n) \<longrightarrow>
      bsize = writable (fr_out s) * sz \<longrightarrow>
      y \<noteq> Inl Overrun \<and>
      (\<forall>s'. y = Inr s' \<longrightarrow> (\<exists>k. writer_advanced (fr_out s) (fr_out s') k))"
  assume step: "(case sys_read (fr_fdin s) bsize of
        (None, fd1) \<Rightarrow> Some (Inl (Fatal ''read'' (s\<lparr>fr_fdin := fd1\<rparr>)))
      | (Some bs, fd1) \<Rightarrow>
          if length bs = 0 \<and> \<not> fr_loop s then Some (Inr (s\<lparr>fr_fdin := fd1\<rparr>))
          else if length bs = 0 then
            (case sys_lseek fd1 of (res, fd2) \<Rightarrow>
               if res = - 1 then Some (Inl (Fatal ''lseek'' (s\<lparr>fr_fdin := fd2\<rparr>)))
               else again sz sys_read sys_lseek bsize (s\<lparr>fr_fdin := fd2\<rparr>))
          else if length bs mod sz \<noteq> 0 then
            Some (Inl (Fatal ''partial read''
              (s\<lparr>fr_fdin := fd1,
                 fr_out := (fr_out s)\<lparr>window := store_bytes sz bs (wr (fr_out s))\<rparr>\<rparr>)))
          else
            (case written (length bs div sz)
                    ((fr_out s)\<lparr>window := store (chunks sz bs) (wr (fr_out s))\<rparr>) of
               Inl e \<Rightarrow> Some (Inl e)
             | Inr w \<Rightarrow> Some (Inr (s\<lparr>fr_fdin := fd1, fr_out := w\<rparr>)))) = Some y"
  show "(\<forall>fd n bs fd'. sys_read fd n = (Some bs, fd') \<longrightarrow> length bs \<le> n) \<longrightarrow>
      bsize = writable (fr_out s) * sz \<longrightarrow>
      y \<noteq> Inl Overrun \<and>
      (\<forall>s'. y = Inr s' \<longrightarrow> (\<exists>k. writer_advanced (fr_out s) (fr_out s') k))"
  proof (intro impI)
    assume contract: "\<forall>fd n bs fd'. sys_read fd n = (Some bs, fd') \<longrightarrow> length bs \<le> n"
      and b: "bsize = writable (fr_out s) * sz"
    let ?goal = "y \<noteq> Inl Overrun \<and>
      (\<forall>s'. y = Inr s' \<longrightarrow> (\<exists>k. writer_advanced (fr_out s) (fr_out s') k))"
    have idle: "writer_advanced (fr_out s) (fr_out s) 0"
      by (simp add: writer_advanced_def)
    obtain r fd1 where rd1: "sys_read (fr_fdin s) bsize = (r, fd1)"
      by (cases "sys_read (fr_fdin s) bsize")
    show ?goal
    proof (cases r)
      case None
      with step rd1 show ?thesis by auto
    next
      case (Some bs)
      note r = Some
      show ?thesis
      proof (cases "length bs = 0")
        case True
        note zero = True
        show ?thesis
        proof (cases "fr_loop s")
          case False
          with step rd1 r zero have "y = Inr (s\<lparr>fr_fdin := fd1\<rparr>)" by simp
          with idle show ?thesis by auto
        next
          case True
          obtain res fd2 where sk1: "sys_lseek fd1 = (res, fd2)" by (cases "sys_lseek fd1")
          show ?thesis
          proof (cases "res = - 1")
            case True
            with step rd1 r zero \<open>fr_loop s\<close> sk1 show ?thesis by auto
          next
            case False
            with step rd1 r zero \<open>fr_loop s\<close> sk1
            have "again sz sys_read sys_lseek bsize (s\<lparr>fr_fdin := fd2\<rparr>) = Some y" by simp
            from IH [OF this] contract b show ?thesis by simp
          qed
        qed
      next
        case False
        note nonzero = False
        show ?thesis
        proof (cases "length bs mod sz = 0")
          case False
          with step rd1 r nonzero show ?thesis by auto
        next
          case True
          have sz: "0 < sz" using True nonzero by (cases sz) auto
          have "length bs \<le> writable (fr_out s) * sz" using contract rd1 r b by blast
          then have "length bs div sz \<le> (writable (fr_out s) * sz) div sz" by (rule div_le_mono)
          then have k: "length bs div sz \<le> length (window (fr_out s))"
            using sz by (simp add: writable_def)
          from written_advanced [OF k, where w = "fr_out s" and xs = "chunks sz bs"] obtain w' where
            w': "(written (length bs div sz)
                   ((fr_out s)\<lparr>window := store (chunks sz bs) (window (fr_out s))\<rparr>)
                   :: 'a file_reader failure + byte list pipewriter) = Inr w'"
            and c: "length (committed w') = length (committed (fr_out s)) + length bs div sz"
            and v: "writable w' + length bs div sz = length (window (fr_out s))"
            by blast
          from step rd1 r nonzero True w'
          have y: "y = Inr (s\<lparr>fr_fdin := fd1, fr_out := w'\<rparr>)" by (simp add: wr_def)
          have "writer_advanced (fr_out s) w' (length bs div sz)"
            using k c v by (simp add: writer_advanced_def writable_def)
          with y show ?thesis by auto
        qed
      qed
    qed
  qed
qed

lemma file_reader_run_advance:
  assumes "\<And>fd n bs fd'. sys_read fd n = (Some bs, fd') \<Longrightarrow> length bs \<le> n"
  shows "file_reader_run sz sys_read sys_lseek s \<noteq> Some (Inl Overrun) \<and>
     (\<forall>s'. file_reader_run sz sys_read sys_lseek s = Some (Inr s') \<longrightarrow>
        (\<exists>k. writer_advanced (fr_out s) (fr_out s') k))"
proof (cases "writable (fr_out s) * sz = 0")
  case True
  have "writer_advanced (fr_out s) (fr_out s) 0" by (simp add: writer_advanced_def)
  with True show ?thesis by (auto simp: file_reader_run_def Let_def)
next
  case False
  then have run: "file_reader_run sz sys_read sys_lseek s =
      file_reader_again sz sys_read sys_lseek (writable (fr_out s) * sz) s"
    by (simp add: file_reader_run_def Let_def)
  show ?thesis
  proof (cases "file_reader_again sz sys_read sys_lseek (writable (fr_out s) * sz) s")
    case None
    with run show ?thesis by simp
  next
    case (Some y)
    from file_reader_again_advance [OF Some] assms
    have "y \<noteq> Inl Overrun \<and>
      (\<forall>s'. y = Inr s' \<longrightarrow> (\<exists>k. writer_advanced (fr_out s) (fr_out s') k))" by blast
    with run Some show ?thesis by simp
  qed
qed

lemma file_writer_run_advance:
  assumes contract: "\<And>fd buf n. - 1 \<le> fst (sys_write fd buf n) \<and> fst (sys_write fd buf n) \<le> int n"
  shows "file_writer_run sz sys_write s \<noteq> Inl Overrun \<and>
     (\<forall>s'. file_writer_run sz sys_write s = Inr s' \<longrightarrow>
        (\<exists>k. reader_advanced (fw_in s) (fw_in s') k))"
proof -
  let ?R = "int (readable (fw_in s)) * int sz"
  define bsize where "bsize = to_int (to_ulong ?R)"
  have R0: "0 \<le> ?R" by simp
  have bR: "bsize = to_int ?R" by (simp add: bsize_def to_int_to_ulong)
  show ?thesis
  proof (cases "bsize = 0")
    case True
    have "reader_advanced (fw_in s) (fw_in s) 0" by (simp add: reader_advanced_def)
    with True show ?thesis by (auto simp: file_writer_run_def Let_def bsize_def)
  next
    case False
    obtain res fd1 where wr1:
      "sys_write (fw_fdout s) (concat (rd (fw_in s))) (nat (to_ulong bsize)) = (res, fd1)"
      by (cases "sys_write (fw_fdout s) (concat (rd (fw_in s))) (nat (to_ulong bsize))")
    from contract [of "fw_fdout s" "concat (rd (fw_in s))" "nat (to_ulong bsize)"] wr1
    have lo: "- 1 \<le> res" and hi: "res \<le> int (nat (to_ulong bsize))" by simp_all
    have run: "file_writer_run sz sys_write s =
       (if to_int res = 0 then Inl (Fatal ''pipe'' (s\<lparr>fw_fdout := fd1\<rparr>))
        else if to_int res < 0 then Inl (Fatal ''write'' (s\<lparr>fw_fdout := fd1\<rparr>))
        else if to_int res mod int sz \<noteq> 0 then Inl (Fatal ''partial write'' (s\<lparr>fw_fdout := fd1\<rparr>))
        else if nat (to_int res div int sz) \<le> readable (fw_in s)
          then Inr (s\<lparr>fw_in := (fw_in s)\<lparr>items := drop (nat (to_int res div int sz)) (items (fw_in s))\<rparr>,
                     fw_fdout := fd1\<rparr>)
        else Inl Overrun)"
    proof (rule file_writer_run_step [where bsize = bsize])
      show "to_int (to_ulong ?R) = bsize" by (simp add: bsize_def)
      show "bsize \<noteq> 0" by (rule False)
      show "sys_write (fw_fdout s) (concat (rd (fw_in s))) (nat (to_ulong bsize)) = (res, fd1)"
        by (rule wr1)
    qed
    show ?thesis
    proof (cases "0 < to_int res \<and> to_int res mod int sz = 0")
      case False
      with run show ?thesis by auto
    next
      case True
      then have pos: "0 < to_int res" and whole: "to_int res mod int sz = 0" by simp_all
      have nwR: "to_int res \<le> ?R"
      proof (cases "0 < bsize")
        case True
        have b31: "bsize < 2 ^ 31" using to_int_range [of ?R] bR by simp
        have "to_ulong bsize = bsize" using True b31 by (intro to_ulong_id) simp_all
        with hi True have "res \<le> bsize" by simp
        with lo b31 have "to_int res = res" by (intro to_int_id) simp_all
        with \<open>res \<le> bsize\<close> have "to_int res \<le> bsize" by simp
        also have "bsize \<le> ?R" unfolding bR using R0 by (rule to_int_le)
        finally show ?thesis .
      next
        case False
        with \<open>bsize \<noteq> 0\<close> have "to_int ?R < 0" using bR by simp
        with R0 have "2 ^ 31 \<le> ?R" by (rule to_int_neg_large)
        moreover have "to_int res < 2 ^ 31" using to_int_range [of res] by simp
        ultimately show ?thesis by simp
      qed
      have sz: "0 < sz"
      proof (rule ccontr)
        assume "\<not> 0 < sz"
        then have R: "?R = 0" by simp
        have "bsize = to_int 0" unfolding bR R ..
        also have "to_int 0 = 0" by (simp add: to_int_def)
        finally show False using \<open>bsize \<noteq> 0\<close> by simp
      qed
      have "to_int res div int sz \<le> ?R div int sz"
        using nwR sz by (intro zdiv_mono1) simp_all
      also have "?R div int sz = int (readable (fw_in s))" using sz by simp
      finally have k: "nat (to_int res div int sz) \<le> readable (fw_in s)" by simp
      have "reader_advanced (fw_in s)
          ((fw_in s)\<lparr>items := drop (nat (to_int res div int sz)) (items (fw_in s))\<rparr>)
          (nat (to_int res div int sz))"
        using k by (simp add: reader_advanced_def)
      with run pos whole k show ?thesis by auto
    qed
  qed
qed

lemma file_printer_loop_no_overrun:
  "file_printer_loop snprintf sys_write pin s \<noteq> Inl Overrun"
  by (induction pin arbitrary: s) (auto split: prod.splits)

lemma file_printer_loop_keeps_input:
  "file_printer_loop snprintf sys_write pin s = Inr s1 \<Longrightarrow> fp_in s1 = fp_in s"
  by (induction pin arbitrary: s) (auto split: prod.splits if_splits)

lemma file_printer_run_advance:
  assumes small: "readable (fp_in s) < 2 ^ 31"
  shows "file_printer_run snprintf sys_write s \<noteq> Inl Overrun \<and>
   (\<forall>s'. file_printer_run snprintf sys_write s = Inr s' \<longrightarrow>
      reader_advanced (fp_in s) (fp_in s') (readable (fp_in s)))"
proof -
  note c = small_count [OF small]
  show ?thesis
  proof (cases "file_printer_loop snprintf sys_write (items (fp_in s)) s")
    case (Inl e)
    then have "e \<noteq> Overrun" using file_printer_loop_no_overrun by metis
    with Inl show ?thesis
      by (simp add: file_printer_run_def Let_def c rd_def readable_def [symmetric])
  next
    case (Inr s1)
    then have "fp_in s1 = fp_in s" by (rule file_printer_loop_keeps_input)
    with Inr show ?thesis
      by (simp add: file_printer_run_def Let_def c rd_def readable_def [symmetric] read_def
          reader_advanced_def)
  qed
qed

lemma file_carrayprinter_run_advance:
  assumes small: "readable (cp_in s) < 2 ^ 31"
  shows "file_carrayprinter_run fprintf fflush s \<noteq> Inl Overrun \<and>
   (\<forall>s'. file_carrayprinter_run fprintf fflush s = Inr s' \<longrightarrow>
      reader_advanced (cp_in s) (cp_in s') (readable (cp_in s)))"
  using small_count [OF small]
  by (auto simp: file_carrayprinter_run_def Let_def read_def reader_advanced_def)

lemma itemcounter_run_advance:
  "itemcounter_run s \<noteq> Inl Overrun \<and>
   (\<forall>s'. itemcounter_run s = Inr s' \<longrightarrow>
      reader_advanced (ic_in s) (ic_in s') 0 \<and> writer_advanced (ic_out s) (ic_out s') 0 \<or>
      reader_advanced (ic_in s) (ic_in s') (readable (ic_in s)) \<and>
      writer_advanced (ic_out s) (ic_out s') 1)"
  by (auto simp: itemcounter_run_def Let_def read_def written_def readable_def writable_def
      wr_def reader_advanced_def writer_advanced_def Suc_le_eq)

lemma decimator_run_advance:
  "decimator_run s \<noteq> Some (Inl Overrun) \<and>
   (\<forall>s'. decimator_run s = Some (Inr s') \<longrightarrow>
      reader_advanced (dc_in s) (dc_in s')
        (min (readable (dc_in s) div dc_d s) (writable (dc_out s)) * dc_d s) \<and>
      writer_advanced (dc_out s) (dc_out s')
        (min (readable (dc_in s) div dc_d s) (writable (dc_out s))))"
proof (cases "dc_d s = 0")
  case True
  then show ?thesis by (simp add: decimator_run_def)
next
  case False
  then have d: "0 < dc_d s" by simp
  define n where "n = min (readable (dc_in s) div dc_d s) (writable (dc_out s))"
  note bs = decimator_count_bounds [OF d n_def]
  show ?thesis
    unfolding decimator_run_result [OF d] n_def [symmetric]
    using bs(1) bs(2)
    by (simp add: reader_advanced_def writer_advanced_def writable_def)
qed

text \<open>
  C7 as stated does not hold for the two formatters: \<^verbatim>\<open>int n\<close> receives the readable count
  and \<^verbatim>\<open>in.read(n)\<close> converts it back. With \<open>2 ^ 31\<close> readable elements \<open>n\<close> is negative,
  no element is formatted, and the scalar formatter asks the handle to advance by
  \<open>2 ^ 64 - 2 ^ 31\<close> elements, more than the count the handle reported. With
  \<open>2 ^ 32 + 1\<close> readable elements \<open>n\<close> is 1: one element is formatted and the input is
  advanced by one element, not by the readable count.
\<close>

theorem file_printer_run_negative_count_counterexample:
  "file_printer_run snprintf_c99 full_write
     \<lparr>fp_scale = 1, fp_in = \<lparr>items = replicate (2 ^ 31) 1\<rparr>, fp_format = plain_item,
      fp_fdout = 0\<rparr> = Inl Overrun \<and>
   file_printer_run snprintf_c99 full_write
     \<lparr>fp_scale = 1, fp_in = \<lparr>items = replicate (2 ^ 32 + 1) 1\<rparr>, fp_format = plain_item,
      fp_fdout = 0\<rparr> =
     Inr \<lparr>fp_scale = 1, fp_in = \<lparr>items = replicate (2 ^ 32) 1\<rparr>, fp_format = plain_item,
      fp_fdout = 1\<rparr>"
proof
  show "file_printer_run snprintf_c99 full_write
     \<lparr>fp_scale = 1, fp_in = \<lparr>items = replicate (2 ^ 31) 1\<rparr>, fp_format = plain_item,
      fp_fdout = 0\<rparr> = Inl Overrun"
    by (simp add: file_printer_run_def Let_def readable_def rd_def read_def to_int_def
        to_ulong_def)
  show "file_printer_run snprintf_c99 full_write
     \<lparr>fp_scale = 1, fp_in = \<lparr>items = replicate (2 ^ 32 + 1) 1\<rparr>, fp_format = plain_item,
      fp_fdout = 0\<rparr> =
     Inr \<lparr>fp_scale = 1, fp_in = \<lparr>items = replicate (2 ^ 32) 1\<rparr>, fp_format = plain_item,
      fp_fdout = 1\<rparr>"
    by (simp add: file_printer_run_def Let_def readable_def rd_def read_def to_int_def
        to_ulong_def snprintf_c99_def plain_item_def full_write_def)
qed

text \<open>
  C7, amended. Provided \<^verbatim>\<open>read\<close> delivers at most the bytes requested, \<^verbatim>\<open>write\<close> returns
  \<open>-1\<close> or a count of at most the bytes offered, and fewer than \<open>2 ^ 31\<close> elements are
  readable at the two formatters, no invocation of any of the six blocks advances a handle
  beyond the count the handle reported (the outcome \<open>Overrun\<close>), and an invocation that
  returns has advanced each reader handle by at most its readable count and each writer
  handle by at most its writable count: the reader and the writer by some such \<open>k\<close>, the
  two formatters by the readable count, the item counter by nothing or by the readable
  count and one slot, the decimator by \<open>n * d\<close> and \<open>n\<close>.
\<close>

theorem advance_within_queried_count:
  assumes "\<And>fd n bs fd'. sys_read fd n = (Some bs, fd') \<Longrightarrow> length bs \<le> n"
    and "\<And>fd buf n. - 1 \<le> fst (sys_write fd buf n) \<and> fst (sys_write fd buf n) \<le> int n"
    and "readable (fp_in fp) < 2 ^ 31"
    and "readable (cp_in cp) < 2 ^ 31"
  shows
    "(file_reader_run sz sys_read sys_lseek fr \<noteq> Some (Inl Overrun) \<and>
      (\<forall>fr'. file_reader_run sz sys_read sys_lseek fr = Some (Inr fr') \<longrightarrow>
         (\<exists>k. writer_advanced (fr_out fr) (fr_out fr') k))) \<and>
     (file_writer_run sz sys_write fw \<noteq> Inl Overrun \<and>
      (\<forall>fw'. file_writer_run sz sys_write fw = Inr fw' \<longrightarrow>
         (\<exists>k. reader_advanced (fw_in fw) (fw_in fw') k))) \<and>
     (file_printer_run snprintf sys_write_text fp \<noteq> Inl Overrun \<and>
      (\<forall>fp'. file_printer_run snprintf sys_write_text fp = Inr fp' \<longrightarrow>
         reader_advanced (fp_in fp) (fp_in fp') (readable (fp_in fp)))) \<and>
     (file_carrayprinter_run fprintf fflush cp \<noteq> Inl Overrun \<and>
      (\<forall>cp'. file_carrayprinter_run fprintf fflush cp = Inr cp' \<longrightarrow>
         reader_advanced (cp_in cp) (cp_in cp') (readable (cp_in cp)))) \<and>
     (itemcounter_run ic \<noteq> Inl Overrun \<and>
      (\<forall>ic'. itemcounter_run ic = Inr ic' \<longrightarrow>
         reader_advanced (ic_in ic) (ic_in ic') 0 \<and> writer_advanced (ic_out ic) (ic_out ic') 0 \<or>
         reader_advanced (ic_in ic) (ic_in ic') (readable (ic_in ic)) \<and>
         writer_advanced (ic_out ic) (ic_out ic') 1)) \<and>
     (decimator_run dc \<noteq> Some (Inl Overrun) \<and>
      (\<forall>dc'. decimator_run dc = Some (Inr dc') \<longrightarrow>
         reader_advanced (dc_in dc) (dc_in dc')
           (min (readable (dc_in dc) div dc_d dc) (writable (dc_out dc)) * dc_d dc) \<and>
         writer_advanced (dc_out dc) (dc_out dc')
           (min (readable (dc_in dc) div dc_d dc) (writable (dc_out dc)))))"
proof (intro conjI)
  have r: "file_reader_run sz sys_read sys_lseek fr \<noteq> Some (Inl Overrun) \<and>
      (\<forall>fr'. file_reader_run sz sys_read sys_lseek fr = Some (Inr fr') \<longrightarrow>
         (\<exists>k. writer_advanced (fr_out fr) (fr_out fr') k))"
    by (rule file_reader_run_advance) (rule assms(1))
  show "file_reader_run sz sys_read sys_lseek fr \<noteq> Some (Inl Overrun)"
    using r by (rule conjunct1)
  show "\<forall>fr'. file_reader_run sz sys_read sys_lseek fr = Some (Inr fr') \<longrightarrow>
         (\<exists>k. writer_advanced (fr_out fr) (fr_out fr') k)"
    using r by (rule conjunct2)
  have w: "file_writer_run sz sys_write fw \<noteq> Inl Overrun \<and>
      (\<forall>fw'. file_writer_run sz sys_write fw = Inr fw' \<longrightarrow>
         (\<exists>k. reader_advanced (fw_in fw) (fw_in fw') k))"
    by (rule file_writer_run_advance) (rule assms(2))
  show "file_writer_run sz sys_write fw \<noteq> Inl Overrun"
    using w by (rule conjunct1)
  show "\<forall>fw'. file_writer_run sz sys_write fw = Inr fw' \<longrightarrow>
         (\<exists>k. reader_advanced (fw_in fw) (fw_in fw') k)"
    using w by (rule conjunct2)
  note p = file_printer_run_advance [OF assms(3), of snprintf sys_write_text]
  show "file_printer_run snprintf sys_write_text fp \<noteq> Inl Overrun"
    using p by (rule conjunct1)
  show "\<forall>fp'. file_printer_run snprintf sys_write_text fp = Inr fp' \<longrightarrow>
         reader_advanced (fp_in fp) (fp_in fp') (readable (fp_in fp))"
    using p by (rule conjunct2)
  note c = file_carrayprinter_run_advance [OF assms(4), of fprintf fflush]
  show "file_carrayprinter_run fprintf fflush cp \<noteq> Inl Overrun"
    using c by (rule conjunct1)
  show "\<forall>cp'. file_carrayprinter_run fprintf fflush cp = Inr cp' \<longrightarrow>
         reader_advanced (cp_in cp) (cp_in cp') (readable (cp_in cp))"
    using c by (rule conjunct2)
  show "itemcounter_run ic \<noteq> Inl Overrun"
    using itemcounter_run_advance [of ic] by (rule conjunct1)
  show "\<forall>ic'. itemcounter_run ic = Inr ic' \<longrightarrow>
         reader_advanced (ic_in ic) (ic_in ic') 0 \<and> writer_advanced (ic_out ic) (ic_out ic') 0 \<or>
         reader_advanced (ic_in ic) (ic_in ic') (readable (ic_in ic)) \<and>
         writer_advanced (ic_out ic) (ic_out ic') 1"
    using itemcounter_run_advance [of ic] by (rule conjunct2)
  show "decimator_run dc \<noteq> Some (Inl Overrun)"
    using decimator_run_advance [of dc] by (rule conjunct1)
  show "\<forall>dc'. decimator_run dc = Some (Inr dc') \<longrightarrow>
         reader_advanced (dc_in dc) (dc_in dc')
           (min (readable (dc_in dc) div dc_d dc) (writable (dc_out dc)) * dc_d dc) \<and>
         writer_advanced (dc_out dc) (dc_out dc')
           (min (readable (dc_in dc) div dc_d dc) (writable (dc_out dc)))"
    using decimator_run_advance [of dc] by (rule conjunct2)
qed

text \<open>
  One returning invocation of each block: the reader commits the one element it read, the
  writer and the two formatters consume all they had, the item counter consumes three
  elements and fills one slot, the decimator consumes six elements and fills two slots.
\<close>

theorem advance_within_queried_count_witness:
  "file_reader_run 4 late_read seek_ok
     \<lparr>fr_loop = False, fr_fdin = 2, fr_out = \<lparr>committed = [], window = [[0, 0, 0, 0]]\<rparr>,
      fr_pos = 0\<rparr> =
     Some (Inr \<lparr>fr_loop = False, fr_fdin = 3,
       fr_out = \<lparr>committed = [[1, 2, 3, 4]], window = []\<rparr>, fr_pos = 0\<rparr>) \<and>
   (\<exists>k. writer_advanced \<lparr>committed = [], window = [[0, 0, 0, 0 :: byte]]\<rparr>
      \<lparr>committed = [[1, 2, 3, 4]], window = []\<rparr> k) \<and>
   file_writer_run 4 full_write \<lparr>fw_in = \<lparr>items = [[1, 2, 3, 4]]\<rparr>, fw_fdout = 0\<rparr> =
     Inr \<lparr>fw_in = \<lparr>items = []\<rparr>, fw_fdout = 4\<rparr> \<and>
   (\<exists>k. reader_advanced \<lparr>items = [[1, 2, 3, 4 :: byte]]\<rparr> \<lparr>items = []\<rparr> k) \<and>
   readable \<lparr>items = [1 :: nat]\<rparr> < 2 ^ 31 \<and>
   file_printer_run snprintf_c99 full_write
     \<lparr>fp_scale = 1, fp_in = \<lparr>items = [1]\<rparr>, fp_format = format_0300d, fp_fdout = 0\<rparr> =
     Inr \<lparr>fp_scale = 1, fp_in = \<lparr>items = []\<rparr>, fp_format = format_0300d, fp_fdout = 300\<rparr> \<and>
   reader_advanced \<lparr>items = [1 :: nat]\<rparr> \<lparr>items = []\<rparr> 1 \<and>
   readable \<lparr>items = [\<lparr>re = 1 :: int, im = 2\<rparr>]\<rparr> < 2 ^ 31 \<and>
   file_carrayprinter_run cfile_fprintf cfile_fflush
     \<lparr>cp_scale = 1, cp_in = \<lparr>items = [\<lparr>re = 1 :: int, im = 2\<rparr>]\<rparr>, cp_head = plain_head,
      cp_format = plain_format, cp_tail = ''t'',
      cp_fout = Some \<lparr>buffered = [], flushed = []\<rparr>\<rparr> =
     Inr \<lparr>cp_scale = 1, cp_in = \<lparr>items = []\<rparr>, cp_head = plain_head,
      cp_format = plain_format, cp_tail = ''t'',
      cp_fout = Some \<lparr>buffered = [], flushed = ''hft''\<rparr>\<rparr> \<and>
   reader_advanced \<lparr>items = [\<lparr>re = 1 :: int, im = 2\<rparr>]\<rparr> \<lparr>items = []\<rparr> 1 \<and>
   itemcounter_run \<lparr>ic_in = \<lparr>items = [7, 8, 9 :: nat]\<rparr>,
       ic_out = \<lparr>committed = [], window = [0 :: int]\<rparr>\<rparr> =
     Inr \<lparr>ic_in = \<lparr>items = []\<rparr>, ic_out = \<lparr>committed = [3], window = []\<rparr>\<rparr> \<and>
   reader_advanced \<lparr>items = [7, 8, 9 :: nat]\<rparr> \<lparr>items = []\<rparr> 3 \<and>
   writer_advanced \<lparr>committed = [], window = [0 :: int]\<rparr> \<lparr>committed = [3], window = []\<rparr> 1 \<and>
   decimator_run \<lparr>dc_d = 3, dc_in = \<lparr>items = [0, 1, 2, 3, 4, 5, 6 :: int]\<rparr>,
       dc_out = \<lparr>committed = [], window = [0, 0, 0, 0]\<rparr>\<rparr> =
     Some (Inr \<lparr>dc_d = 3, dc_in = \<lparr>items = [6]\<rparr>,
       dc_out = \<lparr>committed = [0, 3], window = [0, 0]\<rparr>\<rparr>) \<and>
   reader_advanced \<lparr>items = [0, 1, 2, 3, 4, 5, 6 :: int]\<rparr> \<lparr>items = [6]\<rparr> 6 \<and>
   writer_advanced \<lparr>committed = [], window = [0, 0, 0, 0 :: int]\<rparr>
     \<lparr>committed = [0, 3], window = [0, 0]\<rparr> 2"
proof -
  let ?fr = "\<lparr>fr_loop = False, fr_fdin = 2 :: nat,
      fr_out = \<lparr>committed = [], window = [[0, 0, 0, 0 :: byte]]\<rparr>, fr_pos = 0\<rparr>"
  let ?fw = "\<lparr>fw_in = \<lparr>items = [[1, 2, 3, 4 :: byte]]\<rparr>, fw_fdout = 0 :: nat\<rparr>"
  let ?fp = "\<lparr>fp_scale = 1 :: nat, fp_in = \<lparr>items = [1]\<rparr>, fp_format = format_0300d,
      fp_fdout = 0 :: nat\<rparr>"
  let ?cp = "\<lparr>cp_scale = 1, cp_in = \<lparr>items = [\<lparr>re = 1 :: int, im = 2\<rparr>]\<rparr>,
      cp_head = plain_head, cp_format = plain_format, cp_tail = ''t'',
      cp_fout = Some \<lparr>buffered = [], flushed = []\<rparr>\<rparr>"
  let ?ic = "\<lparr>ic_in = \<lparr>items = [7, 8, 9 :: nat]\<rparr>,
      ic_out = \<lparr>committed = [], window = [0 :: int]\<rparr>\<rparr>"
  let ?dc = "\<lparr>dc_d = 3, dc_in = \<lparr>items = [0, 1, 2, 3, 4, 5, 6 :: int]\<rparr>,
      dc_out = \<lparr>committed = [], window = [0, 0, 0, 0]\<rparr>\<rparr>"
  have rd_le: "\<And>fd n bs fd'. late_read fd n = (Some bs, fd') \<Longrightarrow> length bs \<le> n"
    by (auto simp: late_read_def split: if_splits)
  have wr_le: "\<And>fd buf n. - 1 \<le> fst (full_write fd (buf :: byte list) n) \<and>
      fst (full_write fd buf n) \<le> int n"
    by (simp add: full_write_def)
  have sp: "readable (fp_in ?fp) < 2 ^ 31" by (simp add: readable_def)
  have sc: "readable (cp_in ?cp) < 2 ^ 31" by (simp add: readable_def)
  have ch: "chunks 4 [1, 2, 3, 4 :: byte] = [[1, 2, 3, 4]]"
    by (simp add: chunks.simps)
  have fr: "file_reader_run 4 late_read seek_ok ?fr =
     Some (Inr \<lparr>fr_loop = False, fr_fdin = 3,
       fr_out = \<lparr>committed = [[1, 2, 3, 4]], window = []\<rparr>, fr_pos = 0\<rparr>)"
    unfolding file_reader_run_def
    by (subst file_reader_again.simps)
       (simp add: late_read_def ch written_def writable_def store_def wr_def)
  have fw: "file_writer_run 4 full_write ?fw = Inr \<lparr>fw_in = \<lparr>items = []\<rparr>, fw_fdout = 4\<rparr>"
    by (simp add: file_writer_run_def Let_def readable_def rd_def full_write_def read_def
        to_int_def to_ulong_def)
  have fp: "file_printer_run snprintf_c99 full_write ?fp =
     Inr \<lparr>fp_scale = 1, fp_in = \<lparr>items = []\<rparr>, fp_format = format_0300d, fp_fdout = 300\<rparr>"
    by (simp add: file_printer_run_def Let_def readable_def rd_def snprintf_c99_def
        format_0300d_def full_write_def read_def to_int_def to_ulong_def)
  have cp: "file_carrayprinter_run cfile_fprintf cfile_fflush ?cp =
     Inr \<lparr>cp_scale = 1, cp_in = \<lparr>items = []\<rparr>, cp_head = plain_head,
      cp_format = plain_format, cp_tail = ''t'',
      cp_fout = Some \<lparr>buffered = [], flushed = ''hft''\<rparr>\<rparr>"
    by (simp add: file_carrayprinter_run_def Let_def readable_def rd_def read_def
        cfile_fprintf_def cfile_fflush_def plain_head_def plain_format_def to_int_def
        to_ulong_def)
  have ic: "itemcounter_run ?ic =
     Inr \<lparr>ic_in = \<lparr>items = []\<rparr>, ic_out = \<lparr>committed = [3], window = []\<rparr>\<rparr>"
    by (simp add: itemcounter_run_def Let_def readable_def writable_def wr_def read_def
        written_def)
  have dc: "decimator_run ?dc =
     Some (Inr \<lparr>dc_d = 3, dc_in = \<lparr>items = [6]\<rparr>,
       dc_out = \<lparr>committed = [0, 3], window = [0, 0]\<rparr>\<rparr>)"
    using decimator_run_result [of ?dc] by (simp add: readable_def writable_def upt_rec)
  note t = advance_within_queried_count
    [where sys_read = late_read and sys_write = full_write and sz = 4 and sys_lseek = seek_ok
       and fr = ?fr and fw = ?fw and snprintf = snprintf_c99 and sys_write_text = full_write
       and fp = ?fp and fprintf = cfile_fprintf and fflush = cfile_fflush and cp = ?cp
       and ic = ?ic and dc = ?dc,
     OF rd_le wr_le sp sc]
  show ?thesis
    using t unfolding fr fw fp cp ic dc
    by (simp add: readable_def writable_def reader_advanced_def writer_advanced_def)
qed

end
